theory Spec2Isabelle
  imports Main "HOL-Library.Word" "HOL-Library.Signed_Division" "HOL-Library.Monad_Syntax"
begin

unbundle bit_operations_syntax

section \<open>Machine types of the target\<close>

text \<open>
  The firmware runs on a 32-bit ARM target: \<open>int\<close> and \<open>unsigned long\<close> are 32 bits wide,
  \<open>byte\<close>, \<open>uint8_t\<close> and \<open>unsigned char\<close> are 8 bits wide.  A C++ \<open>int\<close> is a
  32-bit word read in two's complement (\<open>sint\<close>); its comparisons are the signed ones
  (\<open><s\<close>, \<open>\<le>s\<close>), its \<open>+\<close> wraps around.  An \<open>unsigned long\<close> is a 32-bit word read
  unsigned; \<open>-\<close> and \<open>\<le>\<close> on it are the unsigned ones, as in the time comparisons of
  \<open>loop()\<close>.
\<close>

type_synonym byte = "8 word"
type_synonym ulong = "32 word"
type_synonym cint = "32 word"

definition INT_MAX :: cint where
  "INT_MAX = 0x7FFFFFFF"

text \<open>\<open>a / b\<close> on \<open>int\<close>: the quotient truncated towards zero.\<close>

definition int_div :: "cint \<Rightarrow> cint \<Rightarrow> cint" where
  "int_div a b = word_of_int (sint a sdiv sint b)"

text \<open>
  The same division where the divisor is a variable: dividing by zero is not defined by
  the language, so the model has no value there.
\<close>

definition int_div_checked :: "cint \<Rightarrow> cint \<Rightarrow> cint option" where
  "int_div_checked a b = (if b = 0 then None else Some (int_div a b))"

text \<open>
  \<open>millis()\<close> returns the milliseconds since start-up in an \<open>unsigned long\<close>, so it
  wraps around after \<open>2 ^ 32\<close> ms.  The argument is the true time in milliseconds.
\<close>

definition millis :: "nat \<Rightarrow> ulong" where
  "millis t = of_nat t"

section \<open>Constants of \<open>main.cpp\<close>\<close>

definition SERVICE_CURRENT_DATA :: byte where
  "SERVICE_CURRENT_DATA = 0x01"

definition OBD_CAN_REQUEST_ID :: ulong where
  "OBD_CAN_REQUEST_ID = 0x7DF"

definition OBD_CAN_REPLY_ID :: ulong where
  "OBD_CAN_REPLY_ID = 0x7E8"

definition PID_ENGINE_RPM :: byte where
  "PID_ENGINE_RPM = 0x0C"

definition PID_VEHICLE_SPEED :: byte where
  "PID_VEHICLE_SPEED = 0x0D"

definition obdRequestRPM :: "byte list" where
  "obdRequestRPM = [0x02, SERVICE_CURRENT_DATA, PID_ENGINE_RPM, 0xcc, 0xcc, 0xcc, 0xcc, 0xcc]"

definition obdRequestSPEED :: "byte list" where
  "obdRequestSPEED = [0x02, SERVICE_CURRENT_DATA, PID_VEHICLE_SPEED, 0x55, 0x55, 0x55, 0x55, 0x55]"

definition requestRpmPeriod :: ulong where
  "requestRpmPeriod = 100"

definition requestSpeedPeriod :: ulong where
  "requestSpeedPeriod = 100"

definition engineLogPeriod :: ulong where
  "engineLogPeriod = 2000"

text \<open>\<open>CAN_OK\<close> is the success status of the MCP_CAN library (\<open>mcp_can.h\<close>).\<close>

definition CAN_OK :: byte where
  "CAN_OK = 0"

section \<open>Program state\<close>

text \<open>
  The global variables of \<open>main.cpp\<close>, under their own names.  The two function-local
  \<open>static bool errorFlag\<close> of \<open>loop()\<close> are \<open>errorFlagRpm\<close> and \<open>errorFlagSpeed\<close>.
\<close>

record state =
  requestRpmLastMillis :: ulong
  requestSpeedLastMillis :: ulong
  lastRPM :: cint
  lastSPEED :: cint
  numSamplesRPM :: cint
  numSamplesSPEED :: cint
  offSamplesRPM :: cint
  offSamplesSPEED :: cint
  idleSamplesRPM :: cint
  idleSamplesSPEED :: cint
  nonIdleSamplesRPM :: cint
  nonIdleSamplesSPEED :: cint
  nonIdleSumRPM :: cint
  nonIdleSumSPEED :: cint
  nonIdleMinRPM :: cint
  nonIdleMinSPEED :: cint
  nonIdleMaxRPM :: cint
  nonIdleMaxSPEED :: cint
  lastEngineLog :: ulong
  lastFastPublish :: ulong
  fastPublishPeriod :: cint
  idleRPM :: cint
  idleSPEED :: cint
  errorFlagRpm :: bool
  errorFlagSpeed :: bool

text \<open>The initialisers of the globals.\<close>

definition init_state :: state where
  "init_state =
     \<lparr> requestRpmLastMillis = 0, requestSpeedLastMillis = 0,
       lastRPM = 0, lastSPEED = 0,
       numSamplesRPM = 0, numSamplesSPEED = 0,
       offSamplesRPM = 0, offSamplesSPEED = 0,
       idleSamplesRPM = 0, idleSamplesSPEED = 0,
       nonIdleSamplesRPM = 0, nonIdleSamplesSPEED = 0,
       nonIdleSumRPM = 0, nonIdleSumSPEED = 0,
       nonIdleMinRPM = 0, nonIdleMinSPEED = 0,
       nonIdleMaxRPM = 0, nonIdleMaxSPEED = 0,
       lastEngineLog = 0, lastFastPublish = 0,
       fastPublishPeriod = 60000, idleRPM = 1600, idleSPEED = 10,
       errorFlagRpm = False, errorFlagSpeed = False \<rparr>"

section \<open>Received CAN frames\<close>

text \<open>
  What \<open>readMsgBufID(&rxId, &len, rxBuf)\<close> leaves in the three locals: the identifier
  (with the library's flag bits), the length, and the eight bytes of \<open>rxBuf\<close>, indexed
  \<open>0 .. 7\<close>.  The code never looks at \<open>len\<close>.
\<close>

record frame =
  rxId :: ulong
  len :: byte
  rxBuf :: "nat \<Rightarrow> byte"

text \<open>Lines 185 to 200 of \<open>loop()\<close>: the decoder.\<close>

definition handleCan :: "frame \<Rightarrow> state \<Rightarrow> state" where
  "handleCan f s =
     (if rxId f AND 0x80000000 = 0x00000000 then
        if rxId f = OBD_CAN_REPLY_ID \<and> rxBuf f 0 = 0x04 \<and> rxBuf f 1 = 0x41
           \<and> rxBuf f 2 = PID_ENGINE_RPM then
          let s1 = s\<lparr>lastRPM := push_bit 8 (ucast (rxBuf f 3)) OR ucast (rxBuf f 4)\<rparr>
          in s1\<lparr>lastRPM := int_div (lastRPM s1) 4\<rparr>
        else if rxId f = OBD_CAN_REPLY_ID \<and> rxBuf f 0 = 0x03 \<and> rxBuf f 1 = 0x41
           \<and> rxBuf f 2 = PID_VEHICLE_SPEED then
          s\<lparr>lastSPEED := ucast (rxBuf f 3)\<rparr>
        else s
      else s)"

section \<open>Statistics at a period boundary\<close>

text \<open>Lines 210 to 234 of \<open>loop()\<close>: the RPM statistics, then \<open>lastRPM = 0\<close>.\<close>

definition recordRPM :: "state \<Rightarrow> state" where
  "recordRPM s =
     (let s1 = s\<lparr>numSamplesRPM := numSamplesRPM s + 1\<rparr>;
          s2 = (if lastRPM s1 = 0 then
                  s1\<lparr>offSamplesRPM := offSamplesRPM s1 + 1\<rparr>
                else if lastRPM s1 <s idleRPM s1 then
                  s1\<lparr>idleSamplesRPM := idleSamplesRPM s1 + 1\<rparr>
                else
                  let a = s1\<lparr>nonIdleSamplesRPM := nonIdleSamplesRPM s1 + 1\<rparr>;
                      b = a\<lparr>nonIdleSumRPM := nonIdleSumRPM a + lastRPM a\<rparr>;
                      c = (if lastRPM b <s nonIdleMinRPM b \<or> nonIdleMinRPM b = 0
                           then b\<lparr>nonIdleMinRPM := lastRPM b\<rparr> else b)
                  in (if nonIdleMaxRPM c <s lastRPM c
                      then c\<lparr>nonIdleMaxRPM := lastRPM c\<rparr> else c))
      in s2\<lparr>lastRPM := 0\<rparr>)"

text \<open>Lines 261 to 286 of \<open>loop()\<close>: the same for the speed.\<close>

definition recordSPEED :: "state \<Rightarrow> state" where
  "recordSPEED s =
     (let s1 = s\<lparr>numSamplesSPEED := numSamplesSPEED s + 1\<rparr>;
          s2 = (if lastSPEED s1 = 0 then
                  s1\<lparr>offSamplesSPEED := offSamplesSPEED s1 + 1\<rparr>
                else if lastSPEED s1 <s idleSPEED s1 then
                  s1\<lparr>idleSamplesSPEED := idleSamplesSPEED s1 + 1\<rparr>
                else
                  let a = s1\<lparr>nonIdleSamplesSPEED := nonIdleSamplesSPEED s1 + 1\<rparr>;
                      b = a\<lparr>nonIdleSumSPEED := nonIdleSumSPEED a + lastSPEED a\<rparr>;
                      c = (if lastSPEED b <s nonIdleMinSPEED b \<or> nonIdleMinSPEED b = 0
                           then b\<lparr>nonIdleMinSPEED := lastSPEED b\<rparr> else b)
                  in (if nonIdleMaxSPEED c <s lastSPEED c
                      then c\<lparr>nonIdleMaxSPEED := lastSPEED c\<rparr> else c))
      in s2\<lparr>lastSPEED := 0\<rparr>)"

section \<open>Effects and inputs of one pass of \<open>loop()\<close>\<close>

text \<open>The nine values that \<open>myLocationGenerationCallback\<close> writes, under their JSON names.\<close>

record snapshot =
  engineOff :: cint
  engineIdle :: cint
  engineNonIdle :: cint
  engineRpmMin :: cint
  engineRpmMean :: cint
  engineRpmMax :: cint
  engineSpeedMin :: cint
  engineSpeedMean :: cint
  engineSpeedMax :: cint

text \<open>
  What the program does to the outside: a request handed to \<open>sendMsgBuf\<close>, the lines it
  logs (with their arguments), the call of \<open>triggerLocPub()\<close>, and the values written to
  the JSON writer.
\<close>

datatype effect =
    CanSend ulong "byte list"
  | LogSendError byte
  | LogEngineRPM cint cint cint cint cint cint
  | LogEngineSPEED cint cint cint cint cint cint
  | LogManualPublish cint cint cint
  | TriggerLocPub
  | WriteTelemetry snapshot

text \<open>
  What one pass of \<open>loop()\<close> reads from the outside.  \<open>cfgUpdate\<close> holds the values
  the configuration service writes to \<open>idleRPM\<close>, \<open>idleSPEED\<close> and
  \<open>fastPublishPeriod\<close> during this pass, if it does; \<open>locPublish\<close> says whether a
  location publish calls \<open>myLocationGenerationCallback\<close> during this pass;
  \<open>canRx\<close> is the frame read when the \<open>CAN_INT\<close> pin is low; the eight times are
  the true times, in milliseconds, of the eight calls of \<open>millis()\<close>, in program order;
  \<open>sndStatRpm\<close> and \<open>sndStatSpeed\<close> are what \<open>sendMsgBuf\<close> returns.
\<close>

record inputs =
  cfgUpdate :: "(cint \<times> cint \<times> cint) option"
  locPublish :: bool
  keyIn :: bool
  canRx :: "frame option"
  tRpm :: nat
  tRpmSet :: nat
  sndStatRpm :: byte
  tSpeed :: nat
  tSpeedSet :: nat
  sndStatSpeed :: byte
  tLog :: nat
  tLogSet :: nat
  connected :: bool
  tPub :: nat
  tPubSet :: nat

section \<open>Means and the telemetry callback\<close>

text \<open>\<open>nonIdleSamplesRPM ? (nonIdleSumRPM / nonIdleSamplesRPM) : 0\<close>, lines 311 and 346.\<close>

definition nonIdleRpmMean :: "state \<Rightarrow> cint option" where
  "nonIdleRpmMean s =
     (if nonIdleSamplesRPM s \<noteq> 0
      then int_div_checked (nonIdleSumRPM s) (nonIdleSamplesRPM s) else Some 0)"

text \<open>\<open>nonIdleSamplesSPEED ? (nonIdleSumSPEED / nonIdleSamplesSPEED) : 0\<close>, lines 312 and 347.\<close>

definition nonIdleSpeedMean :: "state \<Rightarrow> cint option" where
  "nonIdleSpeedMean s =
     (if nonIdleSamplesSPEED s \<noteq> 0
      then int_div_checked (nonIdleSumSPEED s) (nonIdleSamplesSPEED s) else Some 0)"

text \<open>
  \<open>(int)(n * period / 1000)\<close>: \<open>period\<close> is an \<open>unsigned long\<close>, so the product and the
  quotient are computed on unsigned 32-bit values.
\<close>

definition engineSeconds :: "cint \<Rightarrow> ulong \<Rightarrow> cint" where
  "engineSeconds n period = (n * period) div 1000"

text \<open>Lines 362 to 368: the reset of the statistics.\<close>

definition resetStats :: "state \<Rightarrow> state" where
  "resetStats s =
     s\<lparr> numSamplesSPEED := 0, numSamplesRPM := 0,
        offSamplesSPEED := 0, offSamplesRPM := 0,
        idleSamplesSPEED := 0, idleSamplesRPM := 0,
        nonIdleSamplesSPEED := 0, nonIdleSamplesRPM := 0,
        nonIdleSumSPEED := 0, nonIdleSumRPM := 0,
        nonIdleMinSPEED := 0, nonIdleMinRPM := 0,
        nonIdleMaxSPEED := 0, nonIdleMaxRPM := 0 \<rparr>"

text \<open>Lines 344 to 369.\<close>

definition myLocationGenerationCallback :: "state \<Rightarrow> (snapshot \<times> state) option" where
  "myLocationGenerationCallback s =
     do {
       rpmMean \<leftarrow> nonIdleRpmMean s;
       speedMean \<leftarrow> nonIdleSpeedMean s;
       Some (\<lparr> engineOff = engineSeconds (offSamplesRPM s) requestRpmPeriod,
               engineIdle = engineSeconds (idleSamplesRPM s) requestRpmPeriod,
               engineNonIdle = engineSeconds (nonIdleSamplesRPM s) requestRpmPeriod,
               engineRpmMin = nonIdleMinRPM s,
               engineRpmMean = rpmMean,
               engineRpmMax = nonIdleMaxRPM s,
               engineSpeedMin = nonIdleMinSPEED s,
               engineSpeedMean = speedMean,
               engineSpeedMax = nonIdleMaxSPEED s \<rparr>,
             resetStats s)
     }"

section \<open>The blocks of \<open>loop()\<close>\<close>

text \<open>
  Modelled from the spec: the configuration service is not part of \<open>main.cpp\<close>.  The
  three settings registered in \<open>setup()\<close> are written from outside the program.
\<close>

definition syncSettings :: "inputs \<Rightarrow> state \<Rightarrow> state" where
  "syncSettings x s =
     (case cfgUpdate x of
        None \<Rightarrow> s
      | Some (r, v, p) \<Rightarrow> s\<lparr>idleRPM := r, idleSPEED := v, fastPublishPeriod := p\<rparr>)"

text \<open>
  Modelled from the spec: \<open>Tracker::instance().loop()\<close> is not part of \<open>main.cpp\<close>.  Of
  what it does, the program sees the settings it synchronises and the synchronous call
  of the registered location callback when a location is published.
\<close>

definition trackerLoop :: "inputs \<Rightarrow> state \<Rightarrow> (effect list \<times> state) option" where
  "trackerLoop x s =
     (let s1 = syncSettings x s
      in if locPublish x
         then do { (w, s2) \<leftarrow> myLocationGenerationCallback s1; Some ([WriteTelemetry w], s2) }
         else Some ([], s1))"

text \<open>Lines 178 to 202: a frame is read only when the interrupt pin is low.\<close>

definition receiveCan :: "inputs \<Rightarrow> state \<Rightarrow> state" where
  "receiveCan x s = (case canRx x of None \<Rightarrow> s | Some f \<Rightarrow> handleCan f s)"

text \<open>Line 205: the RPM request is due.\<close>

definition rpmDue :: "inputs \<Rightarrow> state \<Rightarrow> bool" where
  "rpmDue x s = (requestRpmPeriod \<le> millis (tRpm x) - requestRpmLastMillis s)"

text \<open>Lines 205 to 253.\<close>

definition requestRpm :: "inputs \<Rightarrow> state \<Rightarrow> effect list \<times> state" where
  "requestRpm x s =
     (if rpmDue x s then
        let s1 = recordRPM (s\<lparr>requestRpmLastMillis := millis (tRpmSet x)\<rparr>)
        in if keyIn x then
             if sndStatRpm x = CAN_OK then
               ([CanSend OBD_CAN_REQUEST_ID obdRequestRPM], s1\<lparr>errorFlagRpm := False\<rparr>)
             else if \<not> errorFlagRpm s1 then
               ([CanSend OBD_CAN_REQUEST_ID obdRequestRPM, LogSendError (sndStatRpm x)],
                s1\<lparr>errorFlagRpm := True\<rparr>)
             else ([CanSend OBD_CAN_REQUEST_ID obdRequestRPM], s1)
           else ([], s1)
      else ([], s))"

text \<open>Line 256: the speed request is due.\<close>

definition speedDue :: "inputs \<Rightarrow> state \<Rightarrow> bool" where
  "speedDue x s = (requestSpeedPeriod \<le> millis (tSpeed x) - requestSpeedLastMillis s)"

text \<open>Lines 256 to 305.\<close>

definition requestSpeed :: "inputs \<Rightarrow> state \<Rightarrow> effect list \<times> state" where
  "requestSpeed x s =
     (if speedDue x s then
        let s1 = recordSPEED (s\<lparr>requestSpeedLastMillis := millis (tSpeedSet x)\<rparr>)
        in if keyIn x then
             if sndStatSpeed x = CAN_OK then
               ([CanSend OBD_CAN_REQUEST_ID obdRequestSPEED], s1\<lparr>errorFlagSpeed := False\<rparr>)
             else if \<not> errorFlagSpeed s1 then
               ([CanSend OBD_CAN_REQUEST_ID obdRequestSPEED, LogSendError (sndStatSpeed x)],
                s1\<lparr>errorFlagSpeed := True\<rparr>)
             else ([CanSend OBD_CAN_REQUEST_ID obdRequestSPEED], s1)
           else ([], s1)
      else ([], s))"

text \<open>Lines 308 to 327: the debug log, which reads the statistics and keeps them.\<close>

definition engineLog :: "inputs \<Rightarrow> state \<Rightarrow> (effect list \<times> state) option" where
  "engineLog x s =
     (if engineLogPeriod \<noteq> 0 \<and> engineLogPeriod \<le> millis (tLog x) - lastEngineLog s then
        let s1 = s\<lparr>lastEngineLog := millis (tLogSet x)\<rparr>
        in do {
             rpmMean \<leftarrow> nonIdleRpmMean s1;
             speedMean \<leftarrow> nonIdleSpeedMean s1;
             Some ([LogEngineRPM
                      (engineSeconds (offSamplesRPM s1) requestRpmPeriod)
                      (engineSeconds (idleSamplesRPM s1) requestRpmPeriod)
                      (engineSeconds (nonIdleSamplesRPM s1) requestRpmPeriod)
                      (nonIdleMinRPM s1) rpmMean (nonIdleMaxRPM s1),
                    LogEngineSPEED
                      (engineSeconds (offSamplesSPEED s1) requestSpeedPeriod)
                      (engineSeconds (idleSamplesSPEED s1) requestSpeedPeriod)
                      (engineSeconds (nonIdleSamplesSPEED s1) requestSpeedPeriod)
                      (nonIdleMinSPEED s1) speedMean (nonIdleMaxSPEED s1)],
                   s1)
           }
      else Some ([], s))"

text \<open>
  Lines 330 to 340: the adaptive publish.  The cast \<open>(unsigned long) fastPublishPeriod\<close>
  keeps the 32 bits, and the comparison after it is the unsigned one.
\<close>

definition fastPublish :: "inputs \<Rightarrow> state \<Rightarrow> effect list \<times> state" where
  "fastPublish x s =
     (if connected x \<and> idleRPM s \<le>s lastRPM s then
        if 0 <s fastPublishPeriod s
           \<and> fastPublishPeriod s \<le> millis (tPub x) - lastFastPublish s then
          let s1 = s\<lparr>lastFastPublish := millis (tPubSet x)\<rparr>
          in ([LogManualPublish (lastRPM s1) (idleRPM s1) (fastPublishPeriod s1), TriggerLocPub],
              s1)
        else ([], s)
      else ([], s))"

text \<open>
  Lines 156 to 342, in program order.  The sleep handling of lines 161 to 175 calls the
  sleep service only and touches no variable of the program.
\<close>

definition loop :: "inputs \<Rightarrow> state \<Rightarrow> (effect list \<times> state) option" where
  "loop x s =
     do {
       (e0, s0) \<leftarrow> trackerLoop x s;
       let s1 = receiveCan x s0;
       let (e2, s2) = requestRpm x s1;
       let (e3, s3) = requestSpeed x s2;
       (e4, s4) \<leftarrow> engineLog x s3;
       let (e5, s5) = fastPublish x s4;
       Some (e0 @ e2 @ e3 @ e4 @ e5, s5)
     }"

text \<open>The state after the passes \<open>xs\<close> of \<open>loop()\<close>, started in \<open>s\<close>.\<close>

fun run :: "state \<Rightarrow> inputs list \<Rightarrow> state option" where
  "run s [] = Some s"
| "run s (x # xs) = (case loop x s of None \<Rightarrow> None | Some (e, s1) \<Rightarrow> run s1 xs)"

section \<open>Sequences of events\<close>

text \<open>
  The operations of the program on its statistics, as events that may follow one another
  in any order: a received frame goes through the decoder, a period boundary of either
  quantity records the latest sample, the telemetry callback reads and resets, and the
  configuration service writes the three settings.
\<close>

datatype event = Frame frame | RpmPeriod | SpeedPeriod | ReadReset | Configure cint cint cint

fun step :: "event \<Rightarrow> state \<Rightarrow> state" where
  "step (Frame f) s = handleCan f s"
| "step RpmPeriod s = recordRPM s"
| "step SpeedPeriod s = recordSPEED s"
| "step ReadReset s =
     (case myLocationGenerationCallback s of None \<Rightarrow> s | Some (w, s1) \<Rightarrow> s1)"
| "step (Configure r v p) s = s\<lparr>idleRPM := r, idleSPEED := v, fastPublishPeriod := p\<rparr>"

fun steps :: "state \<Rightarrow> event list \<Rightarrow> state" where
  "steps s [] = s"
| "steps s (e # es) = steps (step e s) es"

text \<open>The bucket counters add up to the number of samples.\<close>

definition countsRPM :: "state \<Rightarrow> bool" where
  "countsRPM s = (offSamplesRPM s + idleSamplesRPM s + nonIdleSamplesRPM s = numSamplesRPM s)"

definition countsSPEED :: "state \<Rightarrow> bool" where
  "countsSPEED s =
     (offSamplesSPEED s + idleSamplesSPEED s + nonIdleSamplesSPEED s = numSamplesSPEED s)"

text \<open>
  An RPM reply as the vehicle sends it: eight bytes on the reply identifier, with the data
  bytes \<open>a\<close> and \<open>b\<close>.
\<close>

definition rpmFrame :: "byte \<Rightarrow> byte \<Rightarrow> frame" where
  "rpmFrame a b =
     \<lparr>rxId = 0x7E8, len = 8, rxBuf = (\<lambda>i. [0x04, 0x41, 0x0C, a, b, 0, 0, 0] ! i)\<rparr>"

text \<open>
  Five RPM periods with the samples 0 (no reply), 800, 1600, 2000 and 2400: each reply
  carries four times the RPM in its two data bytes.
\<close>

definition exampleStream :: "event list" where
  "exampleStream =
     [RpmPeriod,
      Frame (rpmFrame 0x0C 0x80), RpmPeriod,
      Frame (rpmFrame 0x19 0x00), RpmPeriod,
      Frame (rpmFrame 0x1F 0x40), RpmPeriod,
      Frame (rpmFrame 0x25 0x80), RpmPeriod]"

text \<open>A speed reply as the vehicle sends it, with the data byte \<open>a\<close>.\<close>

definition speedFrame :: "byte \<Rightarrow> frame" where
  "speedFrame a =
     \<lparr>rxId = 0x7E8, len = 8, rxBuf = (\<lambda>i. [0x03, 0x41, 0x0D, a, 0, 0, 0, 0] ! i)\<rparr>"

text \<open>Two speed periods with the samples 90 and 91.\<close>

definition speedStream :: "event list" where
  "speedStream = [Frame (speedFrame 90), SpeedPeriod, Frame (speedFrame 91), SpeedPeriod]"

section \<open>Observations on passes of \<open>loop()\<close>\<close>

text \<open>The pass calls \<open>triggerLocPub()\<close>: the adaptive publish fires.\<close>

definition fires :: "effect list \<Rightarrow> bool" where
  "fires e = (TriggerLocPub \<in> set e)"

text \<open>
  The times of the eight calls of \<open>millis()\<close> of a pass, in program order.  Time does not
  run backwards over the passes \<open>xs\<close> when these times, one pass after the other, never
  decrease.
\<close>

definition clock :: "inputs \<Rightarrow> nat list" where
  "clock x = [tRpm x, tRpmSet x, tSpeed x, tSpeedSet x, tLog x, tLogSet x, tPub x, tPubSet x]"

definition monotoneClock :: "inputs list \<Rightarrow> bool" where
  "monotoneClock xs = sorted (concat (map clock xs))"

text \<open>The pass reads a frame that has the shape of an RPM reply.\<close>

definition rpmReplyArrives :: "inputs \<Rightarrow> bool" where
  "rpmReplyArrives x =
     (case canRx x of
        None \<Rightarrow> False
      | Some f \<Rightarrow> rxId f = 0x7E8 \<and> rxBuf f 0 = 0x04 \<and> rxBuf f 1 = 0x41 \<and> rxBuf f 2 = 0x0C)"

text \<open>None of the passes \<open>xs\<close>, started in \<open>s\<close>, reaches an RPM period boundary.\<close>

fun noRpmBoundary :: "state \<Rightarrow> inputs list \<Rightarrow> bool" where
  "noRpmBoundary s [] = True"
| "noRpmBoundary s (x # xs) =
     (\<not> rpmDue x s
      \<and> (case loop x s of None \<Rightarrow> False | Some (e, s1) \<Rightarrow> noRpmBoundary s1 xs))"

section \<open>Passes used as examples\<close>

text \<open>
  A pass in which nothing happens, and a pass at time \<open>t\<close> (all eight readings of the
  clock) with the cloud connected.
\<close>

definition quietPass :: inputs where
  "quietPass =
     \<lparr> cfgUpdate = None, locPublish = False, keyIn = False, canRx = None,
       tRpm = 0, tRpmSet = 0, sndStatRpm = 0, tSpeed = 0, tSpeedSet = 0, sndStatSpeed = 0,
       tLog = 0, tLogSet = 0, connected = False, tPub = 0, tPubSet = 0 \<rparr>"

definition passAt :: "nat \<Rightarrow> inputs" where
  "passAt t =
     quietPass\<lparr> tRpm := t, tRpmSet := t, tSpeed := t, tSpeedSet := t,
                tLog := t, tLogSet := t, tPub := t, tPubSet := t, connected := True \<rparr>"

text \<open>
  At 50 ms the fast publish period is set to 20 ms and a reply with 2000 RPM arrives; the
  next pass is at 80 ms.
\<close>

definition firstPass :: inputs where
  "firstPass = (passAt 50)\<lparr> cfgUpdate := Some (1600, 10, 20), canRx := Some (rpmFrame 0x1F 0x40) \<rparr>"

definition secondPass :: inputs where
  "secondPass = passAt 80"

text \<open>The same first pass, with the fast publish period set to 0.\<close>

definition disabledPass :: inputs where
  "disabledPass = (passAt 50)\<lparr> cfgUpdate := Some (1600, 10, 0), canRx := Some (rpmFrame 0x1F 0x40) \<rparr>"

text \<open>A pass at 150 ms, when both requests are due, in which a reply with 2000 RPM arrives.\<close>

definition boundaryPass :: inputs where
  "boundaryPass = (passAt 150)\<lparr> canRx := Some (rpmFrame 0x1F 0x40) \<rparr>"

section \<open>Executions without overflow\<close>

text \<open>
  \<open>nonIdleSamplesRPM++\<close> and \<open>nonIdleSamplesSPEED++\<close> are increments of an \<open>int\<close>: at
  \<open>INT_MAX\<close> they overflow, which C++ leaves undefined and which wraps around to
  \<open>INT_MIN\<close> on the words of this model.  An event is defined when the period boundary,
  if it is one, does not make the non-idle counter of its quantity wrap around; an
  execution is defined when each of its events is.
\<close>

definition countDefined :: "event \<Rightarrow> state \<Rightarrow> bool" where
  "countDefined e s =
     (case e of
        RpmPeriod \<Rightarrow> sint (nonIdleSamplesRPM s) \<le> sint (nonIdleSamplesRPM (recordRPM s))
      | SpeedPeriod \<Rightarrow> sint (nonIdleSamplesSPEED s) \<le> sint (nonIdleSamplesSPEED (recordSPEED s))
      | _ \<Rightarrow> True)"

fun definedRun :: "state \<Rightarrow> event list \<Rightarrow> bool" where
  "definedRun s [] = True"
| "definedRun s (e # es) = (countDefined e s \<and> definedRun (step e s) es)"

text \<open>
  \<open>n\<close> RPM periods in a row, each with a reply of 2000 RPM: with the idle threshold 1600
  every one of them counts a non-idle sample.
\<close>

fun nonIdlePeriods :: "nat \<Rightarrow> event list" where
  "nonIdlePeriods 0 = []"
| "nonIdlePeriods (Suc n) = Frame (rpmFrame 0x1F 0x40) # RpmPeriod # nonIdlePeriods n"

text \<open>With no non-idle sample, minimum and maximum are the sentinel 0.\<close>

definition sentinelRPM :: "state \<Rightarrow> bool" where
  "sentinelRPM s = (nonIdleSamplesRPM s = 0 \<longrightarrow> nonIdleMinRPM s = 0 \<and> nonIdleMaxRPM s = 0)"

definition sentinelSPEED :: "state \<Rightarrow> bool" where
  "sentinelSPEED s =
     (nonIdleSamplesSPEED s = 0 \<longrightarrow> nonIdleMinSPEED s = 0 \<and> nonIdleMaxSPEED s = 0)"

section \<open>The statistics, case by case\<close>

lemma recordRPM_off:
  "lastRPM s = 0 \<Longrightarrow> recordRPM s =
     s\<lparr>numSamplesRPM := numSamplesRPM s + 1, offSamplesRPM := offSamplesRPM s + 1, lastRPM := 0\<rparr>"
  by (simp add: recordRPM_def Let_def)

lemma recordRPM_idle:
  "lastRPM s \<noteq> 0 \<Longrightarrow> lastRPM s <s idleRPM s \<Longrightarrow> recordRPM s =
     s\<lparr>numSamplesRPM := numSamplesRPM s + 1, idleSamplesRPM := idleSamplesRPM s + 1, lastRPM := 0\<rparr>"
  by (simp add: recordRPM_def Let_def)

lemma recordRPM_nonIdle:
  "lastRPM s \<noteq> 0 \<Longrightarrow> \<not> lastRPM s <s idleRPM s \<Longrightarrow> recordRPM s =
     s\<lparr>numSamplesRPM := numSamplesRPM s + 1,
       nonIdleSamplesRPM := nonIdleSamplesRPM s + 1,
       nonIdleSumRPM := nonIdleSumRPM s + lastRPM s,
       nonIdleMinRPM := (if lastRPM s <s nonIdleMinRPM s \<or> nonIdleMinRPM s = 0 then lastRPM s else nonIdleMinRPM s),
       nonIdleMaxRPM := (if nonIdleMaxRPM s <s lastRPM s then lastRPM s else nonIdleMaxRPM s),
       lastRPM := 0\<rparr>"
  by (simp add: recordRPM_def Let_def)

lemma nonIdleRpmMean_eq:
  "nonIdleRpmMean s =
     Some (if nonIdleSamplesRPM s = 0 then 0 else int_div (nonIdleSumRPM s) (nonIdleSamplesRPM s))"
  by (simp add: nonIdleRpmMean_def int_div_checked_def)

lemma nonIdleSpeedMean_eq:
  "nonIdleSpeedMean s =
     Some (if nonIdleSamplesSPEED s = 0 then 0
           else int_div (nonIdleSumSPEED s) (nonIdleSamplesSPEED s))"
  by (simp add: nonIdleSpeedMean_def int_div_checked_def)

lemma callback_eq:
  "myLocationGenerationCallback s =
     Some (\<lparr> engineOff = engineSeconds (offSamplesRPM s) requestRpmPeriod,
             engineIdle = engineSeconds (idleSamplesRPM s) requestRpmPeriod,
             engineNonIdle = engineSeconds (nonIdleSamplesRPM s) requestRpmPeriod,
             engineRpmMin = nonIdleMinRPM s,
             engineRpmMean = (if nonIdleSamplesRPM s = 0 then 0
                              else int_div (nonIdleSumRPM s) (nonIdleSamplesRPM s)),
             engineRpmMax = nonIdleMaxRPM s,
             engineSpeedMin = nonIdleMinSPEED s,
             engineSpeedMean = (if nonIdleSamplesSPEED s = 0 then 0
                                else int_div (nonIdleSumSPEED s) (nonIdleSamplesSPEED s)),
             engineSpeedMax = nonIdleMaxSPEED s \<rparr>,
           resetStats s)"
  by (simp add: myLocationGenerationCallback_def nonIdleRpmMean_eq nonIdleSpeedMean_eq)

lemma countsRPM_recordRPM:
  assumes "countsRPM s"
  shows "countsRPM (recordRPM s)"
proof -
  have n: "numSamplesRPM s = offSamplesRPM s + idleSamplesRPM s + nonIdleSamplesRPM s"
    using assms by (simp add: countsRPM_def)
  show ?thesis
    by (cases "lastRPM s = 0"; cases "lastRPM s <s idleRPM s")
       (simp_all add: recordRPM_off recordRPM_idle recordRPM_nonIdle countsRPM_def n)
qed

lemma countsRPM_recordSPEED: "countsRPM (recordSPEED s) = countsRPM s"
  by (simp add: recordSPEED_def countsRPM_def Let_def)

lemma countsRPM_handleCan: "countsRPM (handleCan f s) = countsRPM s"
  by (simp add: handleCan_def countsRPM_def Let_def)

lemma countsRPM_resetStats: "countsRPM (resetStats s)"
  by (simp add: resetStats_def countsRPM_def)

lemma recordSPEED_off:
  "lastSPEED s = 0 \<Longrightarrow> recordSPEED s =
     s\<lparr>numSamplesSPEED := numSamplesSPEED s + 1, offSamplesSPEED := offSamplesSPEED s + 1, lastSPEED := 0\<rparr>"
  by (simp add: recordSPEED_def Let_def)

lemma recordSPEED_idle:
  "lastSPEED s \<noteq> 0 \<Longrightarrow> lastSPEED s <s idleSPEED s \<Longrightarrow> recordSPEED s =
     s\<lparr>numSamplesSPEED := numSamplesSPEED s + 1, idleSamplesSPEED := idleSamplesSPEED s + 1, lastSPEED := 0\<rparr>"
  by (simp add: recordSPEED_def Let_def)

lemma recordSPEED_nonIdle:
  "lastSPEED s \<noteq> 0 \<Longrightarrow> \<not> lastSPEED s <s idleSPEED s \<Longrightarrow> recordSPEED s =
     s\<lparr>numSamplesSPEED := numSamplesSPEED s + 1,
       nonIdleSamplesSPEED := nonIdleSamplesSPEED s + 1,
       nonIdleSumSPEED := nonIdleSumSPEED s + lastSPEED s,
       nonIdleMinSPEED := (if lastSPEED s <s nonIdleMinSPEED s \<or> nonIdleMinSPEED s = 0 then lastSPEED s else nonIdleMinSPEED s),
       nonIdleMaxSPEED := (if nonIdleMaxSPEED s <s lastSPEED s then lastSPEED s else nonIdleMaxSPEED s),
       lastSPEED := 0\<rparr>"
  by (simp add: recordSPEED_def Let_def)

lemma countsSPEED_recordSPEED:
  assumes "countsSPEED s"
  shows "countsSPEED (recordSPEED s)"
proof -
  have n: "numSamplesSPEED s = offSamplesSPEED s + idleSamplesSPEED s + nonIdleSamplesSPEED s"
    using assms by (simp add: countsSPEED_def)
  show ?thesis
    by (cases "lastSPEED s = 0"; cases "lastSPEED s <s idleSPEED s")
       (simp_all add: recordSPEED_off recordSPEED_idle recordSPEED_nonIdle countsSPEED_def n)
qed

lemma countsSPEED_recordRPM: "countsSPEED (recordRPM s) = countsSPEED s"
  by (simp add: recordRPM_def countsSPEED_def Let_def)

lemma countsSPEED_handleCan: "countsSPEED (handleCan f s) = countsSPEED s"
  by (simp add: handleCan_def countsSPEED_def Let_def)

lemma countsSPEED_resetStats: "countsSPEED (resetStats s)"
  by (simp add: resetStats_def countsSPEED_def)

lemma step_ReadReset: "step ReadReset s = resetStats s"
  by (simp add: callback_eq)

lemma counts_step: "countsRPM s \<and> countsSPEED s \<Longrightarrow> countsRPM (step e s) \<and> countsSPEED (step e s)"
proof (cases e)
  case (Configure r v p)
  then show "countsRPM s \<and> countsSPEED s \<Longrightarrow> ?thesis"
    by (simp add: countsRPM_def countsSPEED_def)
qed (simp_all add: step_ReadReset countsRPM_recordRPM countsRPM_recordSPEED countsRPM_handleCan
       countsRPM_resetStats countsSPEED_recordSPEED countsSPEED_recordRPM countsSPEED_handleCan
       countsSPEED_resetStats del: step.simps(4))

lemma counts_steps:
  "countsRPM s \<and> countsSPEED s \<Longrightarrow> countsRPM (steps s evs) \<and> countsSPEED (steps s evs)"
proof (induction evs arbitrary: s)
  case Nil
  then show ?case by simp
next
  case (Cons e evs)
  from Cons.prems have "countsRPM (step e s) \<and> countsSPEED (step e s)"
    by (rule counts_step)
  then show ?case
    using Cons.IH by simp
qed

lemma counts_init: "countsRPM init_state \<and> countsSPEED init_state"
  by (simp add: countsRPM_def countsSPEED_def init_state_def)

text \<open>
  Claim C1.  For the RPM and for the speed, after every sequence of events (received
  frames, period boundaries of either quantity, read and reset, changes of the
  settings) from the initial state, the off, idle and non-idle counters add up to the
  number of samples: \<open>offSamples + idleSamples + nonIdleSamples = numSamples\<close>.  The
  sequence is arbitrary, so this holds after every update and between any two resets.
  Lemma \<open>counts_run\<close>, further down, is the same fact over passes of \<open>loop()\<close>.
\<close>

theorem C1_counts: "countsRPM (steps init_state evs) \<and> countsSPEED (steps init_state evs)"
  using counts_init by (rule counts_steps)

lemma handleCan_rpmFrame:
  "handleCan (rpmFrame a b) s = s\<lparr>lastRPM := int_div (push_bit 8 (ucast a) OR ucast b) 4\<rparr>"
  by (simp add: handleCan_def rpmFrame_def OBD_CAN_REPLY_ID_def PID_ENGINE_RPM_def Let_def)

lemma exampleStream_run:
  "steps init_state exampleStream =
     init_state\<lparr>numSamplesRPM := 5, offSamplesRPM := 1, idleSamplesRPM := 1,
       nonIdleSamplesRPM := 3, nonIdleSumRPM := 6000, nonIdleMinRPM := 1600,
       nonIdleMaxRPM := 2400\<rparr>"
  by (simp add: exampleStream_def handleCan_rpmFrame recordRPM_def int_div_def Let_def
        init_state_def signed_divide_int_def word_sless_alt)

text \<open>
  Claim C2, as amended.  At a period boundary the latest sample goes into exactly one
  bucket, and nothing else changes but the sample counter and the cleared sample: a
  sample equal to 0 increments \<open>offSamples\<close>; a sample that is nonzero and below the idle
  threshold increments \<open>idleSamples\<close>; a sample that is nonzero and greater than or equal
  to the idle threshold increments \<open>nonIdleSamples\<close>, is added to \<open>nonIdleSum\<close>, becomes
  \<open>nonIdleMin\<close> when that is the sentinel 0 or the sample is smaller, and becomes
  \<open>nonIdleMax\<close> when the sample is larger.  With the idle threshold 1600 and the samples
  0, 800, 1600, 2000, 2400 over five periods the result is \<open>offSamples = 1\<close>,
  \<open>idleSamples = 1\<close>, \<open>nonIdleSamples = 3\<close>, \<open>nonIdleMin = 1600\<close>,
  \<open>nonIdleMax = 2400\<close> and the mean 2000.
\<close>

theorem C2_classification:
  "(lastRPM s = 0 \<longrightarrow>
      recordRPM s = s\<lparr>numSamplesRPM := numSamplesRPM s + 1,
                        offSamplesRPM := offSamplesRPM s + 1, lastRPM := 0\<rparr>)
   \<and> (lastRPM s \<noteq> 0 \<and> lastRPM s <s idleRPM s \<longrightarrow>
      recordRPM s = s\<lparr>numSamplesRPM := numSamplesRPM s + 1,
                        idleSamplesRPM := idleSamplesRPM s + 1, lastRPM := 0\<rparr>)
   \<and> (lastRPM s \<noteq> 0 \<and> idleRPM s \<le>s lastRPM s \<longrightarrow>
      recordRPM s = s\<lparr>numSamplesRPM := numSamplesRPM s + 1,
                        nonIdleSamplesRPM := nonIdleSamplesRPM s + 1,
                        nonIdleSumRPM := nonIdleSumRPM s + lastRPM s,
                        nonIdleMinRPM := (if lastRPM s <s nonIdleMinRPM s \<or> nonIdleMinRPM s = 0
                                          then lastRPM s else nonIdleMinRPM s),
                        nonIdleMaxRPM := (if nonIdleMaxRPM s <s lastRPM s
                                          then lastRPM s else nonIdleMaxRPM s),
                        lastRPM := 0\<rparr>)
   \<and> (lastSPEED s = 0 \<longrightarrow>
      recordSPEED s = s\<lparr>numSamplesSPEED := numSamplesSPEED s + 1,
                          offSamplesSPEED := offSamplesSPEED s + 1, lastSPEED := 0\<rparr>)
   \<and> (lastSPEED s \<noteq> 0 \<and> lastSPEED s <s idleSPEED s \<longrightarrow>
      recordSPEED s = s\<lparr>numSamplesSPEED := numSamplesSPEED s + 1,
                          idleSamplesSPEED := idleSamplesSPEED s + 1, lastSPEED := 0\<rparr>)
   \<and> (lastSPEED s \<noteq> 0 \<and> idleSPEED s \<le>s lastSPEED s \<longrightarrow>
      recordSPEED s = s\<lparr>numSamplesSPEED := numSamplesSPEED s + 1,
                          nonIdleSamplesSPEED := nonIdleSamplesSPEED s + 1,
                          nonIdleSumSPEED := nonIdleSumSPEED s + lastSPEED s,
                          nonIdleMinSPEED := (if lastSPEED s <s nonIdleMinSPEED s
                                                 \<or> nonIdleMinSPEED s = 0
                                              then lastSPEED s else nonIdleMinSPEED s),
                          nonIdleMaxSPEED := (if nonIdleMaxSPEED s <s lastSPEED s
                                              then lastSPEED s else nonIdleMaxSPEED s),
                          lastSPEED := 0\<rparr>)
   \<and> idleRPM init_state = 1600
   \<and> offSamplesRPM (steps init_state exampleStream) = 1
   \<and> idleSamplesRPM (steps init_state exampleStream) = 1
   \<and> nonIdleSamplesRPM (steps init_state exampleStream) = 3
   \<and> nonIdleMinRPM (steps init_state exampleStream) = 1600
   \<and> nonIdleMaxRPM (steps init_state exampleStream) = 2400
   \<and> nonIdleRpmMean (steps init_state exampleStream) = Some 2000"
proof -
  have rpm: "idleRPM s \<le>s lastRPM s \<longleftrightarrow> \<not> lastRPM s <s idleRPM s"
    by (simp add: word_sle_eq word_sless_alt not_less)
  have speed: "idleSPEED s \<le>s lastSPEED s \<longleftrightarrow> \<not> lastSPEED s <s idleSPEED s"
    by (simp add: word_sle_eq word_sless_alt not_less)
  have general:
    "(lastRPM s = 0 \<longrightarrow>
      recordRPM s = s\<lparr>numSamplesRPM := numSamplesRPM s + 1,
                        offSamplesRPM := offSamplesRPM s + 1, lastRPM := 0\<rparr>)
   \<and> (lastRPM s \<noteq> 0 \<and> lastRPM s <s idleRPM s \<longrightarrow>
      recordRPM s = s\<lparr>numSamplesRPM := numSamplesRPM s + 1,
                        idleSamplesRPM := idleSamplesRPM s + 1, lastRPM := 0\<rparr>)
   \<and> (lastRPM s \<noteq> 0 \<and> idleRPM s \<le>s lastRPM s \<longrightarrow>
      recordRPM s = s\<lparr>numSamplesRPM := numSamplesRPM s + 1,
                        nonIdleSamplesRPM := nonIdleSamplesRPM s + 1,
                        nonIdleSumRPM := nonIdleSumRPM s + lastRPM s,
                        nonIdleMinRPM := (if lastRPM s <s nonIdleMinRPM s \<or> nonIdleMinRPM s = 0
                                          then lastRPM s else nonIdleMinRPM s),
                        nonIdleMaxRPM := (if nonIdleMaxRPM s <s lastRPM s
                                          then lastRPM s else nonIdleMaxRPM s),
                        lastRPM := 0\<rparr>)
   \<and> (lastSPEED s = 0 \<longrightarrow>
      recordSPEED s = s\<lparr>numSamplesSPEED := numSamplesSPEED s + 1,
                          offSamplesSPEED := offSamplesSPEED s + 1, lastSPEED := 0\<rparr>)
   \<and> (lastSPEED s \<noteq> 0 \<and> lastSPEED s <s idleSPEED s \<longrightarrow>
      recordSPEED s = s\<lparr>numSamplesSPEED := numSamplesSPEED s + 1,
                          idleSamplesSPEED := idleSamplesSPEED s + 1, lastSPEED := 0\<rparr>)
   \<and> (lastSPEED s \<noteq> 0 \<and> idleSPEED s \<le>s lastSPEED s \<longrightarrow>
      recordSPEED s = s\<lparr>numSamplesSPEED := numSamplesSPEED s + 1,
                          nonIdleSamplesSPEED := nonIdleSamplesSPEED s + 1,
                          nonIdleSumSPEED := nonIdleSumSPEED s + lastSPEED s,
                          nonIdleMinSPEED := (if lastSPEED s <s nonIdleMinSPEED s
                                                 \<or> nonIdleMinSPEED s = 0
                                              then lastSPEED s else nonIdleMinSPEED s),
                          nonIdleMaxSPEED := (if nonIdleMaxSPEED s <s lastSPEED s
                                              then lastSPEED s else nonIdleMaxSPEED s),
                          lastSPEED := 0\<rparr>)"
    using recordRPM_off [of s] recordRPM_idle [of s] recordRPM_nonIdle [of s]
      recordSPEED_off [of s] recordSPEED_idle [of s] recordSPEED_nonIdle [of s]
    unfolding rpm speed by blast
  have init: "idleRPM init_state = 1600"
    by (simp add: init_state_def)
  have example:
    "offSamplesRPM (steps init_state exampleStream) = 1
     \<and> idleSamplesRPM (steps init_state exampleStream) = 1
     \<and> nonIdleSamplesRPM (steps init_state exampleStream) = 3
     \<and> nonIdleMinRPM (steps init_state exampleStream) = 1600
     \<and> nonIdleMaxRPM (steps init_state exampleStream) = 2400
     \<and> nonIdleRpmMean (steps init_state exampleStream) = Some 2000"
    by (simp add: exampleStream_run nonIdleRpmMean_eq int_div_def signed_divide_int_def)
  from general init example show ?thesis
    by simp
qed

text \<open>The witness of C2: one state for each of the six cases.\<close>

theorem C2_classification_witness:
  "recordRPM (init_state\<lparr>lastRPM := 0\<rparr>)
     = init_state\<lparr>numSamplesRPM := 1, offSamplesRPM := 1, lastRPM := 0\<rparr>
   \<and> recordRPM (init_state\<lparr>lastRPM := 800\<rparr>)
     = init_state\<lparr>numSamplesRPM := 1, idleSamplesRPM := 1, lastRPM := 0\<rparr>
   \<and> recordRPM (init_state\<lparr>lastRPM := 2000\<rparr>)
     = init_state\<lparr>numSamplesRPM := 1, nonIdleSamplesRPM := 1, nonIdleSumRPM := 2000,
         nonIdleMinRPM := 2000, nonIdleMaxRPM := 2000, lastRPM := 0\<rparr>
   \<and> recordSPEED (init_state\<lparr>lastSPEED := 0\<rparr>)
     = init_state\<lparr>numSamplesSPEED := 1, offSamplesSPEED := 1, lastSPEED := 0\<rparr>
   \<and> recordSPEED (init_state\<lparr>lastSPEED := 5\<rparr>)
     = init_state\<lparr>numSamplesSPEED := 1, idleSamplesSPEED := 1, lastSPEED := 0\<rparr>
   \<and> recordSPEED (init_state\<lparr>lastSPEED := 90\<rparr>)
     = init_state\<lparr>numSamplesSPEED := 1, nonIdleSamplesSPEED := 1, nonIdleSumSPEED := 90,
         nonIdleMinSPEED := 90, nonIdleMaxSPEED := 90, lastSPEED := 0\<rparr>"
proof -
  have h1: "lastRPM (init_state\<lparr>lastRPM := 0\<rparr>) = 0"
    by simp
  have h2: "lastRPM (init_state\<lparr>lastRPM := 800\<rparr>) \<noteq> 0
      \<and> lastRPM (init_state\<lparr>lastRPM := 800\<rparr>) <s idleRPM (init_state\<lparr>lastRPM := 800\<rparr>)"
    by (simp add: init_state_def)
  have h3: "lastRPM (init_state\<lparr>lastRPM := 2000\<rparr>) \<noteq> 0
      \<and> idleRPM (init_state\<lparr>lastRPM := 2000\<rparr>) \<le>s lastRPM (init_state\<lparr>lastRPM := 2000\<rparr>)"
    by (simp add: init_state_def)
  have h4: "lastSPEED (init_state\<lparr>lastSPEED := 0\<rparr>) = 0"
    by simp
  have h5: "lastSPEED (init_state\<lparr>lastSPEED := 5\<rparr>) \<noteq> 0
      \<and> lastSPEED (init_state\<lparr>lastSPEED := 5\<rparr>) <s idleSPEED (init_state\<lparr>lastSPEED := 5\<rparr>)"
    by (simp add: init_state_def)
  have h6: "lastSPEED (init_state\<lparr>lastSPEED := 90\<rparr>) \<noteq> 0
      \<and> idleSPEED (init_state\<lparr>lastSPEED := 90\<rparr>) \<le>s lastSPEED (init_state\<lparr>lastSPEED := 90\<rparr>)"
    by (simp add: init_state_def)
  note c = C2_classification
  have r1: "recordRPM (init_state\<lparr>lastRPM := 0\<rparr>)
      = init_state\<lparr>numSamplesRPM := 1, offSamplesRPM := 1, lastRPM := 0\<rparr>"
    using c [of "init_state\<lparr>lastRPM := 0\<rparr>", THEN conjunct1, rule_format, OF h1]
    by (simp add: init_state_def)
  have r2: "recordRPM (init_state\<lparr>lastRPM := 800\<rparr>)
      = init_state\<lparr>numSamplesRPM := 1, idleSamplesRPM := 1, lastRPM := 0\<rparr>"
    using c [of "init_state\<lparr>lastRPM := 800\<rparr>", THEN conjunct2, THEN conjunct1, rule_format, OF h2]
    by (simp add: init_state_def)
  have r3: "recordRPM (init_state\<lparr>lastRPM := 2000\<rparr>)
      = init_state\<lparr>numSamplesRPM := 1, nonIdleSamplesRPM := 1, nonIdleSumRPM := 2000,
         nonIdleMinRPM := 2000, nonIdleMaxRPM := 2000, lastRPM := 0\<rparr>"
    using c [of "init_state\<lparr>lastRPM := 2000\<rparr>", THEN conjunct2, THEN conjunct2, THEN conjunct1,
             rule_format, OF h3]
    by (simp add: init_state_def word_sless_alt)
  have r4: "recordSPEED (init_state\<lparr>lastSPEED := 0\<rparr>)
      = init_state\<lparr>numSamplesSPEED := 1, offSamplesSPEED := 1, lastSPEED := 0\<rparr>"
    using c [of "init_state\<lparr>lastSPEED := 0\<rparr>", THEN conjunct2, THEN conjunct2, THEN conjunct2,
             THEN conjunct1, rule_format, OF h4]
    by (simp add: init_state_def)
  have r5: "recordSPEED (init_state\<lparr>lastSPEED := 5\<rparr>)
      = init_state\<lparr>numSamplesSPEED := 1, idleSamplesSPEED := 1, lastSPEED := 0\<rparr>"
    using c [of "init_state\<lparr>lastSPEED := 5\<rparr>", THEN conjunct2, THEN conjunct2, THEN conjunct2,
             THEN conjunct2, THEN conjunct1, rule_format, OF h5]
    by (simp add: init_state_def)
  have r6: "recordSPEED (init_state\<lparr>lastSPEED := 90\<rparr>)
      = init_state\<lparr>numSamplesSPEED := 1, nonIdleSamplesSPEED := 1, nonIdleSumSPEED := 90,
         nonIdleMinSPEED := 90, nonIdleMaxSPEED := 90, lastSPEED := 0\<rparr>"
    using c [of "init_state\<lparr>lastSPEED := 90\<rparr>", THEN conjunct2, THEN conjunct2, THEN conjunct2,
             THEN conjunct2, THEN conjunct2, THEN conjunct1, rule_format, OF h6]
    by (simp add: init_state_def word_sless_alt)
  from r1 r2 r3 r4 r5 r6 show ?thesis
    by (intro conjI)
qed

text \<open>
  Claim C2 as stated fails where the idle threshold is 0, a value the setting allows: with
  no reply in the period the sample is 0, which is greater than or equal to the threshold,
  and the boundary counts it as off, not as non-idle.
\<close>

theorem C2_zero_threshold_counterexample:
  "idleRPM (steps init_state [Configure 0 10 60000]) \<le>s lastRPM (steps init_state [Configure 0 10 60000])
   \<and> nonIdleSamplesRPM (steps init_state [Configure 0 10 60000, RpmPeriod])
       \<noteq> nonIdleSamplesRPM (steps init_state [Configure 0 10 60000]) + 1
   \<and> offSamplesRPM (steps init_state [Configure 0 10 60000, RpmPeriod])
       = offSamplesRPM (steps init_state [Configure 0 10 60000]) + 1"
  by (simp add: init_state_def recordRPM_def Let_def)

section \<open>Read and reset\<close>

lemma resetStats_fields:
  "numSamplesRPM (resetStats s) = 0 \<and> numSamplesSPEED (resetStats s) = 0
   \<and> offSamplesRPM (resetStats s) = 0 \<and> offSamplesSPEED (resetStats s) = 0
   \<and> idleSamplesRPM (resetStats s) = 0 \<and> idleSamplesSPEED (resetStats s) = 0
   \<and> nonIdleSamplesRPM (resetStats s) = 0 \<and> nonIdleSamplesSPEED (resetStats s) = 0
   \<and> nonIdleSumRPM (resetStats s) = 0 \<and> nonIdleSumSPEED (resetStats s) = 0
   \<and> nonIdleMinRPM (resetStats s) = 0 \<and> nonIdleMinSPEED (resetStats s) = 0
   \<and> nonIdleMaxRPM (resetStats s) = 0 \<and> nonIdleMaxSPEED (resetStats s) = 0"
  by (simp add: resetStats_def)

lemma engineSeconds_0: "engineSeconds 0 p = 0"
  by (simp add: engineSeconds_def)

text \<open>
  Claim C3.  From every state the telemetry callback returns: it writes the nine values
  computed from the counters as they are before the reset (the three durations from the
  RPM buckets, minimum, mean and maximum of both quantities), and leaves every counter
  of both quantities at zero (\<open>numSamples\<close>, \<open>offSamples\<close>, \<open>idleSamples\<close>,
  \<open>nonIdleSamples\<close>, \<open>nonIdleSum\<close>, \<open>nonIdleMin\<close>, \<open>nonIdleMax\<close>).  Called again at
  once, it writes nine zeros.
\<close>

theorem C3_read_reset:
  "myLocationGenerationCallback s =
     Some (\<lparr> engineOff = (offSamplesRPM s * 100) div 1000,
             engineIdle = (idleSamplesRPM s * 100) div 1000,
             engineNonIdle = (nonIdleSamplesRPM s * 100) div 1000,
             engineRpmMin = nonIdleMinRPM s,
             engineRpmMean = (if nonIdleSamplesRPM s = 0 then 0
                              else int_div (nonIdleSumRPM s) (nonIdleSamplesRPM s)),
             engineRpmMax = nonIdleMaxRPM s,
             engineSpeedMin = nonIdleMinSPEED s,
             engineSpeedMean = (if nonIdleSamplesSPEED s = 0 then 0
                                else int_div (nonIdleSumSPEED s) (nonIdleSamplesSPEED s)),
             engineSpeedMax = nonIdleMaxSPEED s \<rparr>,
           resetStats s)
   \<and> numSamplesRPM (resetStats s) = 0 \<and> numSamplesSPEED (resetStats s) = 0
   \<and> offSamplesRPM (resetStats s) = 0 \<and> offSamplesSPEED (resetStats s) = 0
   \<and> idleSamplesRPM (resetStats s) = 0 \<and> idleSamplesSPEED (resetStats s) = 0
   \<and> nonIdleSamplesRPM (resetStats s) = 0 \<and> nonIdleSamplesSPEED (resetStats s) = 0
   \<and> nonIdleSumRPM (resetStats s) = 0 \<and> nonIdleSumSPEED (resetStats s) = 0
   \<and> nonIdleMinRPM (resetStats s) = 0 \<and> nonIdleMinSPEED (resetStats s) = 0
   \<and> nonIdleMaxRPM (resetStats s) = 0 \<and> nonIdleMaxSPEED (resetStats s) = 0
   \<and> myLocationGenerationCallback (resetStats s) =
     Some (\<lparr> engineOff = 0, engineIdle = 0, engineNonIdle = 0,
             engineRpmMin = 0, engineRpmMean = 0, engineRpmMax = 0,
             engineSpeedMin = 0, engineSpeedMean = 0, engineSpeedMax = 0 \<rparr>,
           resetStats s)"
proof -
  have first: "myLocationGenerationCallback s =
     Some (\<lparr> engineOff = (offSamplesRPM s * 100) div 1000,
             engineIdle = (idleSamplesRPM s * 100) div 1000,
             engineNonIdle = (nonIdleSamplesRPM s * 100) div 1000,
             engineRpmMin = nonIdleMinRPM s,
             engineRpmMean = (if nonIdleSamplesRPM s = 0 then 0
                              else int_div (nonIdleSumRPM s) (nonIdleSamplesRPM s)),
             engineRpmMax = nonIdleMaxRPM s,
             engineSpeedMin = nonIdleMinSPEED s,
             engineSpeedMean = (if nonIdleSamplesSPEED s = 0 then 0
                                else int_div (nonIdleSumSPEED s) (nonIdleSamplesSPEED s)),
             engineSpeedMax = nonIdleMaxSPEED s \<rparr>,
           resetStats s)"
    by (simp add: callback_eq engineSeconds_def requestRpmPeriod_def)
  have idem: "resetStats (resetStats s) = resetStats s"
    by (simp add: resetStats_def)
  have second: "myLocationGenerationCallback (resetStats s) =
     Some (\<lparr> engineOff = 0, engineIdle = 0, engineNonIdle = 0,
             engineRpmMin = 0, engineRpmMean = 0, engineRpmMax = 0,
             engineSpeedMin = 0, engineSpeedMean = 0, engineSpeedMax = 0 \<rparr>,
           resetStats s)"
    by (simp add: callback_eq [of "resetStats s"] resetStats_fields engineSeconds_0 idem)
  from first resetStats_fields [of s] second show ?thesis
    by (intro conjI) simp_all
qed

section \<open>The decoder\<close>

lemma handleCan_rpm:
  "rxId f = 0x7E8 \<Longrightarrow> rxBuf f 0 = 0x04 \<Longrightarrow> rxBuf f 1 = 0x41 \<Longrightarrow> rxBuf f 2 = 0x0C \<Longrightarrow>
   handleCan f s = s\<lparr>lastRPM := int_div (push_bit 8 (ucast (rxBuf f 3)) OR ucast (rxBuf f 4)) 4\<rparr>"
  by (simp add: handleCan_def OBD_CAN_REPLY_ID_def PID_ENGINE_RPM_def Let_def)

lemma handleCan_speed:
  "rxId f = 0x7E8 \<Longrightarrow> rxBuf f 0 = 0x03 \<Longrightarrow> rxBuf f 1 = 0x41 \<Longrightarrow> rxBuf f 2 = 0x0D \<Longrightarrow>
   handleCan f s = s\<lparr>lastSPEED := ucast (rxBuf f 3)\<rparr>"
  by (simp add: handleCan_def OBD_CAN_REPLY_ID_def PID_ENGINE_RPM_def PID_VEHICLE_SPEED_def Let_def)

lemma handleCan_other:
  "\<not> (rxId f = 0x7E8 \<and> rxBuf f 0 = 0x04 \<and> rxBuf f 1 = 0x41 \<and> rxBuf f 2 = 0x0C) \<Longrightarrow>
   \<not> (rxId f = 0x7E8 \<and> rxBuf f 0 = 0x03 \<and> rxBuf f 1 = 0x41 \<and> rxBuf f 2 = 0x0D) \<Longrightarrow>
   handleCan f s = s"
  by (auto simp add: handleCan_def OBD_CAN_REPLY_ID_def PID_ENGINE_RPM_def PID_VEHICLE_SPEED_def Let_def)

lemma shifted_byte_disjoint:
  fixes a b :: byte
  shows "(push_bit 8 (ucast a) :: cint) AND ucast b = 0"
  by (rule bit_eqI) (auto simp add: bit_simps dest: bit_imp_le_length)

lemma raw_or_add:
  fixes a b :: byte
  shows "(push_bit 8 (ucast a) OR ucast b :: cint) = push_bit 8 (ucast a) + ucast b"
  by (rule disjunctive_add_eq_or [symmetric]) (rule shifted_byte_disjoint)

lemma uint_byte_bound: "uint (a :: byte) < 256"
  using uint_bounded [of a] by simp

lemma raw_rpm_uint:
  fixes a b :: byte
  shows "uint (push_bit 8 (ucast a) OR ucast b :: cint) = 256 * uint a + uint b"
proof -
  have "uint (push_bit 8 (ucast a) + ucast b :: cint) = (256 * uint a + uint b) mod 2 ^ 32"
    by (simp add: uint_word_ariths push_bit_eq_mult uint_up_ucast is_up mod_simps mult.commute)
  also have "\<dots> = 256 * uint a + uint b"
    using uint_byte_bound [of a] uint_byte_bound [of b] uint_ge_0 [of a]  uint_ge_0 [of b] by simp
  finally show ?thesis by (simp add: raw_or_add)
qed

lemma signed_take_bit_31_small:
  "0 \<le> k \<Longrightarrow> k < 2147483648 \<Longrightarrow> signed_take_bit 31 k = (k :: int)"
  by (rule signed_take_bit_int_eq_self) simp_all

lemma sint_small:
  fixes w :: cint
  shows "uint w < 2147483648 \<Longrightarrow> sint w = uint w"
  by (simp add: sint_uint signed_take_bit_31_small)

lemma uint_word_of_int_small:
  "0 \<le> k \<Longrightarrow> k < 2147483648 \<Longrightarrow> uint (word_of_int k :: cint) = k"
  by (simp add: uint_word_of_int take_bit_int_eq_self)

lemma decoded_rpm_sint:
  fixes a b :: byte
  shows "sint (int_div (push_bit 8 (ucast a) OR ucast b) 4) = (256 * uint a + uint b) div 4"
proof -
  let ?raw = "push_bit 8 (ucast a) OR ucast b :: cint"
  have u: "uint ?raw = 256 * uint a + uint b"
    by (rule raw_rpm_uint)
  have range: "0 \<le> 256 * uint a + uint b" "256 * uint a + uint b < 65536"
    using uint_byte_bound [of a] uint_byte_bound [of b] uint_ge_0 [of a] uint_ge_0 [of b] by simp_all
  have s: "sint ?raw = 256 * uint a + uint b"
    using u range by (simp add: sint_small)
  have q: "0 \<le> (256 * uint a + uint b) div 4" "(256 * uint a + uint b) div 4 < 2147483648"
    using range by arith+
  have "int_div ?raw 4 = word_of_int ((256 * uint a + uint b) div 4)"
    using range by (simp add: int_div_def s signed_divide_int_def sgn_if)
  then show ?thesis
    using q by (simp add: sint_small uint_word_of_int_small)
qed

lemma speed_sint:
  fixes a :: byte
  shows "sint (ucast a :: cint) = uint a"
  using uint_byte_bound [of a]
  by (simp add: sint_small uint_up_ucast is_up)

text \<open>
  Claim C4.  A frame on the reply identifier \<open>0x7E8\<close> whose first three bytes are
  \<open>0x04\<close>, \<open>0x41\<close> and the RPM PID \<open>0x0C\<close> stores
  \<open>((rxBuf[3] << 8) | rxBuf[4]) / 4\<close> into \<open>lastRPM\<close> and changes nothing else; as
  a number this is \<open>(256 * rxBuf[3] + rxBuf[4]) div 4\<close>.  A frame on the reply
  identifier whose first three bytes are \<open>0x03\<close>, \<open>0x41\<close> and the speed PID
  \<open>0x0D\<close> stores \<open>rxBuf[3]\<close> into \<open>lastSPEED\<close> and changes nothing else.
\<close>

theorem C4_decode:
  "(rxId f = 0x7E8 \<and> rxBuf f 0 = 0x04 \<and> rxBuf f 1 = 0x41 \<and> rxBuf f 2 = 0x0C \<longrightarrow>
      handleCan f s =
        s\<lparr>lastRPM := int_div (push_bit 8 (ucast (rxBuf f 3)) OR ucast (rxBuf f 4)) 4\<rparr>
      \<and> sint (lastRPM (handleCan f s)) = (256 * uint (rxBuf f 3) + uint (rxBuf f 4)) div 4)
   \<and> (rxId f = 0x7E8 \<and> rxBuf f 0 = 0x03 \<and> rxBuf f 1 = 0x41 \<and> rxBuf f 2 = 0x0D \<longrightarrow>
      handleCan f s = s\<lparr>lastSPEED := ucast (rxBuf f 3)\<rparr>
      \<and> sint (lastSPEED (handleCan f s)) = uint (rxBuf f 3))"
  by (simp add: handleCan_rpm handleCan_speed decoded_rpm_sint speed_sint)

text \<open>The witness of C4: an RPM reply for 2000 RPM and a speed reply for 90 km/h.\<close>

theorem C4_decode_witness:
  "lastRPM (handleCan (rpmFrame 0x1F 0x40) init_state) = 2000
   \<and> lastSPEED (handleCan (speedFrame 0x5A) init_state) = 90"
proof -
  have r: "rxId (rpmFrame 0x1F 0x40) = 0x7E8 \<and> rxBuf (rpmFrame 0x1F 0x40) 0 = 0x04
      \<and> rxBuf (rpmFrame 0x1F 0x40) 1 = 0x41 \<and> rxBuf (rpmFrame 0x1F 0x40) 2 = 0x0C"
    by (simp add: rpmFrame_def)
  have v: "rxId (speedFrame 0x5A) = 0x7E8 \<and> rxBuf (speedFrame 0x5A) 0 = 0x03
      \<and> rxBuf (speedFrame 0x5A) 1 = 0x41 \<and> rxBuf (speedFrame 0x5A) 2 = 0x0D"
    by (simp add: speedFrame_def)
  have "lastRPM (handleCan (rpmFrame 0x1F 0x40) init_state) = 2000"
    using C4_decode [of "rpmFrame 0x1F 0x40" init_state, THEN conjunct1, rule_format, OF r,
                     THEN conjunct1]
    by (simp add: rpmFrame_def int_div_def signed_divide_int_def)
  moreover have "lastSPEED (handleCan (speedFrame 0x5A) init_state) = 90"
    using C4_decode [of "speedFrame 0x5A" init_state, THEN conjunct2, rule_format, OF v,
                     THEN conjunct1]
    by (simp add: speedFrame_def)
  ultimately show ?thesis
    by simp
qed

text \<open>
  Claim C5.  A frame that matches neither reply shape (another identifier, or the reply
  identifier with another byte count, service byte or PID) leaves the whole state as it
  was: both latest samples and all counters.
\<close>

theorem C5_mismatch_ignored:
  "\<not> (rxId f = 0x7E8 \<and> rxBuf f 0 = 0x04 \<and> rxBuf f 1 = 0x41 \<and> rxBuf f 2 = 0x0C) \<Longrightarrow>
   \<not> (rxId f = 0x7E8 \<and> rxBuf f 0 = 0x03 \<and> rxBuf f 1 = 0x41 \<and> rxBuf f 2 = 0x0D) \<Longrightarrow>
   handleCan f s = s"
  by (rule handleCan_other)

text \<open>
  The witness of C5: a wrong identifier, an RPM reply with the byte count of the speed, an
  unknown PID, and a negative response.
\<close>

theorem C5_mismatch_ignored_witness:
  "handleCan ((rpmFrame 0x1F 0x40)\<lparr>rxId := 0x7E9\<rparr>) init_state = init_state
   \<and> handleCan ((rpmFrame 0x1F 0x40)\<lparr>rxBuf := (\<lambda>i. [0x03, 0x41, 0x0C, 0x1F, 0x40, 0, 0, 0] ! i)\<rparr>)
        init_state = init_state
   \<and> handleCan ((speedFrame 0x5A)\<lparr>rxBuf := (\<lambda>i. [0x03, 0x41, 0x0E, 0x5A, 0, 0, 0, 0] ! i)\<rparr>)
        init_state = init_state
   \<and> handleCan ((speedFrame 0x5A)\<lparr>rxBuf := (\<lambda>i. [0x03, 0x7F, 0x0D, 0x5A, 0, 0, 0, 0] ! i)\<rparr>)
        init_state = init_state"
  by (intro conjI; rule C5_mismatch_ignored; simp add: rpmFrame_def speedFrame_def)

section \<open>The means\<close>

lemma sint_int_div_nonneg:
  fixes a b :: cint
  assumes "0 \<le>s a" and "0 <s b"
  shows "sint (int_div a b) = sint a div sint b"
proof -
  have a: "0 \<le> sint a" and b: "0 < sint b"
    using assms by (simp_all add: word_sle_eq word_sless_alt)
  have ub: "sint a < 2147483648"
    using sint_lt [of a] by simp
  have q0: "0 \<le> sint a div sint b"
    using a b by (simp add: pos_imp_zdiv_nonneg_iff)
  have "sint a div sint b \<le> sint a"
    using zdiv_mono2 [of "sint a" 1 "sint b"] a b by simp
  then have q1: "sint a div sint b < 2147483648"
    using ub by linarith
  have "sint a sdiv sint b = sint a div sint b"
    using a b by (simp add: signed_divide_int_def sgn_if)
  then show ?thesis
    using q0 q1 by (simp add: int_div_def sint_small uint_word_of_int_small)
qed

lemma engineLog_eq:
  "engineLog x s =
     Some (if engineLogPeriod \<le> millis (tLog x) - lastEngineLog s then
             ([LogEngineRPM
                 (engineSeconds (offSamplesRPM s) requestRpmPeriod)
                 (engineSeconds (idleSamplesRPM s) requestRpmPeriod)
                 (engineSeconds (nonIdleSamplesRPM s) requestRpmPeriod)
                 (nonIdleMinRPM s)
                 (if nonIdleSamplesRPM s = 0 then 0
                  else int_div (nonIdleSumRPM s) (nonIdleSamplesRPM s))
                 (nonIdleMaxRPM s),
               LogEngineSPEED
                 (engineSeconds (offSamplesSPEED s) requestSpeedPeriod)
                 (engineSeconds (idleSamplesSPEED s) requestSpeedPeriod)
                 (engineSeconds (nonIdleSamplesSPEED s) requestSpeedPeriod)
                 (nonIdleMinSPEED s)
                 (if nonIdleSamplesSPEED s = 0 then 0
                  else int_div (nonIdleSumSPEED s) (nonIdleSamplesSPEED s))
                 (nonIdleMaxSPEED s)],
              s\<lparr>lastEngineLog := millis (tLogSet x)\<rparr>)
           else ([], s))"
  by (simp add: engineLog_def nonIdleRpmMean_eq nonIdleSpeedMean_eq engineLogPeriod_def Let_def)

lemma rpm_mean_number:
  assumes "0 \<le>s nonIdleSumRPM s \<and> 0 <s nonIdleSamplesRPM s"
  shows "\<exists>m. nonIdleRpmMean s = Some m
           \<and> sint m = sint (nonIdleSumRPM s) div sint (nonIdleSamplesRPM s)"
proof -
  from assms have "nonIdleSamplesRPM s \<noteq> 0"
    by auto
  with assms show ?thesis
    by (simp add: nonIdleRpmMean_eq sint_int_div_nonneg)
qed

lemma speed_mean_number:
  assumes "0 \<le>s nonIdleSumSPEED s \<and> 0 <s nonIdleSamplesSPEED s"
  shows "\<exists>m. nonIdleSpeedMean s = Some m
           \<and> sint m = sint (nonIdleSumSPEED s) div sint (nonIdleSamplesSPEED s)"
proof -
  from assms have "nonIdleSamplesSPEED s \<noteq> 0"
    by auto
  with assms show ?thesis
    by (simp add: nonIdleSpeedMean_eq sint_int_div_nonneg)
qed

text \<open>
  Claim C8.  In every state each mean has a value: it is 0 when \<open>nonIdleSamples\<close> is 0,
  and \<open>nonIdleSum / nonIdleSamples\<close> otherwise, so the division by zero, which has no
  value, is never reached.  The debug log and the telemetry callback both return, and the
  means they log and write are these.  For a sum that is not negative and a positive
  count the mean is, as a number, the integer quotient of the two.
\<close>

theorem C8_mean_guarded:
  "nonIdleRpmMean s =
     Some (if nonIdleSamplesRPM s = 0 then 0
           else int_div (nonIdleSumRPM s) (nonIdleSamplesRPM s))
   \<and> nonIdleSpeedMean s =
     Some (if nonIdleSamplesSPEED s = 0 then 0
           else int_div (nonIdleSumSPEED s) (nonIdleSamplesSPEED s))
   \<and> int_div_checked a 0 = None
   \<and> (\<exists>e s1. engineLog x s = Some (e, s1)
        \<and> (\<forall>a1 a2 a3 a4 m a6. LogEngineRPM a1 a2 a3 a4 m a6 \<in> set e \<longrightarrow>
              Some m = nonIdleRpmMean s)
        \<and> (\<forall>a1 a2 a3 a4 m a6. LogEngineSPEED a1 a2 a3 a4 m a6 \<in> set e \<longrightarrow>
              Some m = nonIdleSpeedMean s))
   \<and> (\<exists>w s1. myLocationGenerationCallback s = Some (w, s1)
        \<and> Some (engineRpmMean w) = nonIdleRpmMean s
        \<and> Some (engineSpeedMean w) = nonIdleSpeedMean s)
   \<and> (0 \<le>s nonIdleSumRPM s \<and> 0 <s nonIdleSamplesRPM s \<longrightarrow>
        (\<exists>m. nonIdleRpmMean s = Some m
           \<and> sint m = sint (nonIdleSumRPM s) div sint (nonIdleSamplesRPM s)))
   \<and> (0 \<le>s nonIdleSumSPEED s \<and> 0 <s nonIdleSamplesSPEED s \<longrightarrow>
        (\<exists>m. nonIdleSpeedMean s = Some m
           \<and> sint m = sint (nonIdleSumSPEED s) div sint (nonIdleSamplesSPEED s)))"
proof -
  have zero: "int_div_checked a 0 = None"
    by (simp add: int_div_checked_def)
  have log: "\<exists>e s1. engineLog x s = Some (e, s1)
        \<and> (\<forall>a1 a2 a3 a4 m a6. LogEngineRPM a1 a2 a3 a4 m a6 \<in> set e \<longrightarrow>
              Some m = nonIdleRpmMean s)
        \<and> (\<forall>a1 a2 a3 a4 m a6. LogEngineSPEED a1 a2 a3 a4 m a6 \<in> set e \<longrightarrow>
              Some m = nonIdleSpeedMean s)"
    by (simp add: engineLog_eq nonIdleRpmMean_eq nonIdleSpeedMean_eq)
  have cb: "\<exists>w s1. myLocationGenerationCallback s = Some (w, s1)
        \<and> Some (engineRpmMean w) = nonIdleRpmMean s
        \<and> Some (engineSpeedMean w) = nonIdleSpeedMean s"
    by (simp add: callback_eq nonIdleRpmMean_eq nonIdleSpeedMean_eq)
  from nonIdleRpmMean_eq [of s] nonIdleSpeedMean_eq [of s] zero log cb
    rpm_mean_number [of s] speed_mean_number [of s]
  show ?thesis
    by (intro conjI impI)
qed

lemma speedStream_run:
  "steps init_state speedStream =
     init_state\<lparr>numSamplesSPEED := 2, nonIdleSamplesSPEED := 2, nonIdleSumSPEED := 181,
       nonIdleMinSPEED := 90, nonIdleMaxSPEED := 91\<rparr>"
  by (simp add: speedStream_def handleCan_speed speedFrame_def recordSPEED_def Let_def
        init_state_def word_sless_alt)

text \<open>
  The witness of C8: the mean 2000 of the RPM samples 1600, 2000, 2400 and the mean 90 of
  the speed samples 90 and 91.
\<close>

theorem C8_mean_guarded_witness:
  "(\<exists>m. nonIdleRpmMean (steps init_state exampleStream) = Some m \<and> sint m = 6000 div 3)
   \<and> (\<exists>m. nonIdleSpeedMean (steps init_state speedStream) = Some m \<and> sint m = 181 div 2)"
proof -
  have h1: "0 \<le>s nonIdleSumRPM (steps init_state exampleStream)
      \<and> 0 <s nonIdleSamplesRPM (steps init_state exampleStream)"
    by (simp add: exampleStream_run word_sle_eq word_sless_alt)
  have h2: "0 \<le>s nonIdleSumSPEED (steps init_state speedStream)
      \<and> 0 <s nonIdleSamplesSPEED (steps init_state speedStream)"
    by (simp add: speedStream_run word_sle_eq word_sless_alt)
  note c = C8_mean_guarded [of "steps init_state exampleStream"]
  note d = C8_mean_guarded [of "steps init_state speedStream"]
  have "\<exists>m. nonIdleRpmMean (steps init_state exampleStream) = Some m \<and> sint m = 6000 div 3"
    using c [THEN conjunct2, THEN conjunct2, THEN conjunct2, THEN conjunct2, THEN conjunct2,
             THEN conjunct1, rule_format, OF h1]
    by (simp add: exampleStream_run)
  moreover
  have "\<exists>m. nonIdleSpeedMean (steps init_state speedStream) = Some m \<and> sint m = 181 div 2"
    using d [THEN conjunct2, THEN conjunct2, THEN conjunct2, THEN conjunct2, THEN conjunct2,
             THEN conjunct2, rule_format, OF h2]
    by (simp add: speedStream_run)
  ultimately show ?thesis
    by (rule conjI)
qed

section \<open>One pass of \<open>loop()\<close>\<close>

lemma trackerLoop_eq:
  "trackerLoop x s = Some (e0, s0) \<Longrightarrow>
     s0 = (if locPublish x then resetStats (syncSettings x s) else syncSettings x s)
     \<and> \<not> fires e0"
  by (auto simp add: trackerLoop_def callback_eq fires_def Let_def split: if_splits)

lemma trackerLoop_total: "\<exists>e0 s0. trackerLoop x s = Some (e0, s0)"
  by (simp add: trackerLoop_def callback_eq Let_def)

lemma syncSettings_keeps [simp]:
  "lastRPM (syncSettings x s) = lastRPM s"
  "lastFastPublish (syncSettings x s) = lastFastPublish s"
  "requestRpmLastMillis (syncSettings x s) = requestRpmLastMillis s"
  by (simp_all add: syncSettings_def split: option.splits)

lemma resetStats_keeps [simp]:
  "lastRPM (resetStats s) = lastRPM s"
  "lastFastPublish (resetStats s) = lastFastPublish s"
  "requestRpmLastMillis (resetStats s) = requestRpmLastMillis s"
  "fastPublishPeriod (resetStats s) = fastPublishPeriod s"
  "idleRPM (resetStats s) = idleRPM s"
  by (simp_all add: resetStats_def)

lemma handleCan_keeps [simp]:
  "lastFastPublish (handleCan f s) = lastFastPublish s"
  "requestRpmLastMillis (handleCan f s) = requestRpmLastMillis s"
  "fastPublishPeriod (handleCan f s) = fastPublishPeriod s"
  "idleRPM (handleCan f s) = idleRPM s"
  by (simp_all add: handleCan_def Let_def)

lemma receiveCan_keeps [simp]:
  "lastFastPublish (receiveCan x s) = lastFastPublish s"
  "requestRpmLastMillis (receiveCan x s) = requestRpmLastMillis s"
  "fastPublishPeriod (receiveCan x s) = fastPublishPeriod s"
  "idleRPM (receiveCan x s) = idleRPM s"
  by (simp_all add: receiveCan_def split: option.splits)

lemma recordRPM_keeps [simp]:
  "lastFastPublish (recordRPM s) = lastFastPublish s"
  "fastPublishPeriod (recordRPM s) = fastPublishPeriod s"
  "idleRPM (recordRPM s) = idleRPM s"
  "lastRPM (recordRPM s) = 0"
  by (simp_all add: recordRPM_def Let_def)

lemma recordSPEED_keeps [simp]:
  "lastFastPublish (recordSPEED s) = lastFastPublish s"
  "fastPublishPeriod (recordSPEED s) = fastPublishPeriod s"
  "idleRPM (recordSPEED s) = idleRPM s"
  "lastRPM (recordSPEED s) = lastRPM s"
  by (simp_all add: recordSPEED_def Let_def)

lemma requestRpm_eq:
  "requestRpm x s = (e, s1) \<Longrightarrow>
     lastFastPublish s1 = lastFastPublish s
     \<and> fastPublishPeriod s1 = fastPublishPeriod s
     \<and> idleRPM s1 = idleRPM s
     \<and> lastRPM s1 = (if rpmDue x s then 0 else lastRPM s)
     \<and> \<not> fires e"
  by (auto simp add: requestRpm_def fires_def Let_def split: if_splits)

lemma requestSpeed_eq:
  "requestSpeed x s = (e, s1) \<Longrightarrow>
     lastFastPublish s1 = lastFastPublish s
     \<and> fastPublishPeriod s1 = fastPublishPeriod s
     \<and> idleRPM s1 = idleRPM s
     \<and> lastRPM s1 = lastRPM s
     \<and> \<not> fires e"
  by (auto simp add: requestSpeed_def fires_def Let_def split: if_splits)

lemma engineLog_keeps:
  "engineLog x s = Some (e, s1) \<Longrightarrow>
     lastFastPublish s1 = lastFastPublish s
     \<and> fastPublishPeriod s1 = fastPublishPeriod s
     \<and> idleRPM s1 = idleRPM s
     \<and> lastRPM s1 = lastRPM s
     \<and> \<not> fires e"
  by (auto simp add: engineLog_eq fires_def split: if_splits)

lemma engineLog_total: "\<exists>e s1. engineLog x s = Some (e, s1)"
  by (simp add: engineLog_eq)

lemma fastPublish_eq:
  "fastPublish x s = (e, s1) \<Longrightarrow>
     fires e = (connected x \<and> idleRPM s \<le>s lastRPM s \<and> 0 <s fastPublishPeriod s
                \<and> fastPublishPeriod s \<le> millis (tPub x) - lastFastPublish s)
     \<and> s1 = (if fires e then s\<lparr>lastFastPublish := millis (tPubSet x)\<rparr> else s)"
  by (auto simp add: fastPublish_def fires_def Let_def split: if_splits)

lemma loopE:
  assumes "loop x s = Some (e, s')"
  obtains e0 s0 e2 s2 e3 s3 e4 s4 e5 where
    "trackerLoop x s = Some (e0, s0)"
    "requestRpm x (receiveCan x s0) = (e2, s2)"
    "requestSpeed x s2 = (e3, s3)"
    "engineLog x s3 = Some (e4, s4)"
    "fastPublish x s4 = (e5, s')"
    "e = e0 @ e2 @ e3 @ e4 @ e5"
proof -
  obtain e0 s0 where a: "trackerLoop x s = Some (e0, s0)"
    using trackerLoop_total by blast
  obtain e2 s2 where b: "requestRpm x (receiveCan x s0) = (e2, s2)"
    by (cases "requestRpm x (receiveCan x s0)")
  obtain e3 s3 where c: "requestSpeed x s2 = (e3, s3)"
    by (cases "requestSpeed x s2")
  obtain e4 s4 where d: "engineLog x s3 = Some (e4, s4)"
    using engineLog_total by blast
  obtain e5 s5 where f: "fastPublish x s4 = (e5, s5)"
    by (cases "fastPublish x s4")
  from a b c d f have "loop x s = Some (e0 @ e2 @ e3 @ e4 @ e5, s5)"
    by (simp add: loop_def)
  with assms have "e = e0 @ e2 @ e3 @ e4 @ e5" and "s' = s5"
    by simp_all
  with a b c d f show thesis
    using that by blast
qed

lemma loop_total: "\<exists>e s'. loop x s = Some (e, s')"
proof -
  obtain e0 s0 where a: "trackerLoop x s = Some (e0, s0)"
    using trackerLoop_total by blast
  obtain e2 s2 where b: "requestRpm x (receiveCan x s0) = (e2, s2)"
    by (cases "requestRpm x (receiveCan x s0)")
  obtain e3 s3 where c: "requestSpeed x s2 = (e3, s3)"
    by (cases "requestSpeed x s2")
  obtain e4 s4 where d: "engineLog x s3 = Some (e4, s4)"
    using engineLog_total by blast
  obtain e5 s5 where f: "fastPublish x s4 = (e5, s5)"
    by (cases "fastPublish x s4")
  from a b c d f show ?thesis
    by (simp add: loop_def)
qed

lemma fires_append [simp]: "fires (a @ b) = (fires a \<or> fires b)"
  by (auto simp add: fires_def)

text \<open>What one pass does to the adaptive publish.\<close>

lemma loop_publish:
  assumes "loop x s = Some (e, s')"
  shows "fires e = (connected x \<and> idleRPM s' \<le>s lastRPM s' \<and> 0 <s fastPublishPeriod s'
                     \<and> fastPublishPeriod s' \<le> millis (tPub x) - lastFastPublish s)"
    and "lastFastPublish s' = (if fires e then millis (tPubSet x) else lastFastPublish s)"
proof -
  from assms obtain e0 s0 e2 s2 e3 s3 e4 s4 e5 where
    a: "trackerLoop x s = Some (e0, s0)" and
    b: "requestRpm x (receiveCan x s0) = (e2, s2)" and
    c: "requestSpeed x s2 = (e3, s3)" and
    d: "engineLog x s3 = Some (e4, s4)" and
    f: "fastPublish x s4 = (e5, s')" and
    e: "e = e0 @ e2 @ e3 @ e4 @ e5"
    by (rule loopE)
  note A = trackerLoop_eq [OF a] and B = requestRpm_eq [OF b] and C = requestSpeed_eq [OF c]
    and D = engineLog_keeps [OF d] and F = fastPublish_eq [OF f]
  have fe: "fires e = fires e5"
    using A B C D by (simp add: e)
  have l4: "lastFastPublish s4 = lastFastPublish s"
    using A B C D by (simp split: if_splits)
  show "fires e = (connected x \<and> idleRPM s' \<le>s lastRPM s' \<and> 0 <s fastPublishPeriod s'
                     \<and> fastPublishPeriod s' \<le> millis (tPub x) - lastFastPublish s)"
    using F l4 by (auto simp add: fe split: if_splits)
  show "lastFastPublish s' = (if fires e then millis (tPubSet x) else lastFastPublish s)"
    using F l4 by (auto simp add: fe split: if_splits)
qed

section \<open>The adaptive publish\<close>

lemma elapsed_real:
  assumes "T \<le> t" and "p \<le> millis t - millis T"
  shows "T + unat p \<le> t"
proof -
  have "millis t - millis T = of_nat (t - T)"
    using assms(1) by (simp add: millis_def)
  then have "unat (millis t - millis T) \<le> t - T"
    by (simp add: unat_of_nat)
  moreover have "unat p \<le> unat (millis t - millis T)"
    using assms(2) by (simp add: word_le_nat_alt)
  ultimately show ?thesis
    using assms(1) by linarith
qed

lemma positive_sint:
  fixes p :: cint
  assumes "0 <s p"
  shows "sint p = int (unat p)"
proof -
  have pos: "0 < sint p"
    using assms by (simp add: word_sless_alt)
  have "uint p < 2147483648"
  proof (rule ccontr)
    assume "\<not> uint p < 2147483648"
    then have "signed_take_bit 31 (uint p) \<le> uint p - 2 ^ Suc 31"
      by (intro signed_take_bit_int_less_eq) simp
    moreover have "uint p < 4294967296"
      using uint_bounded [of p] by simp
    ultimately show False
      using pos by (simp add: sint_uint)
  qed
  then show ?thesis
    by (simp add: sint_small)
qed

lemma sorted_later:
  fixes T :: nat
  assumes "sorted (T # c @ ys)" and "t \<in> set (T # c)"
  shows "T \<le> t" and "sorted (t # ys)"
  using assms by (auto simp add: sorted_append)

lemma tPubSet_clock: "tPubSet x \<in> set (clock x)" and tPub_clock: "tPub x \<in> set (clock x)"
  by (simp_all add: clock_def)

lemma run_lastFastPublish:
  "run s xs = Some s' \<Longrightarrow> lastFastPublish s = millis T \<Longrightarrow>
   sorted (T # concat (map clock xs) @ rest) \<Longrightarrow>
   \<exists>T'. lastFastPublish s' = millis T' \<and> T \<le> T' \<and> sorted (T' # rest)"
proof (induction xs arbitrary: s T)
  case Nil
  then show ?case by auto
next
  case (Cons x xs)
  from Cons.prems(1) obtain e s1 where
    l: "loop x s = Some (e, s1)" and r: "run s1 xs = Some s'"
    by (auto split: option.splits)
  define T1 where "T1 = (if fires e then tPubSet x else T)"
  have p: "lastFastPublish s1 = millis T1"
    using loop_publish(2) [OF l] Cons.prems(2) by (simp add: T1_def)
  have so: "sorted (T # clock x @ (concat (map clock xs) @ rest))"
    using Cons.prems(3) by simp
  have mem: "T1 \<in> set (T # clock x)"
    using tPubSet_clock [of x] by (simp add: T1_def)
  note le = sorted_later(1) [OF so mem] and so1 = sorted_later(2) [OF so mem]
  from Cons.IH [OF r p so1] obtain T' where
    "lastFastPublish s' = millis T'" "T1 \<le> T'" "sorted (T' # rest)"
    by blast
  with le show ?case
    by (intro exI [of _ T']) simp
qed

lemma between_firings:
  assumes x: "loop x s = Some (e1, s1)" and fx: "fires e1"
    and mid: "run s1 mid = Some s2"
    and y: "loop y s2 = Some (e2, s3)" and fy: "fires e2"
    and mono: "monotoneClock (x # mid @ [y])"
  shows "int (tPubSet x) + sint (fastPublishPeriod s3) \<le> int (tPub y)"
proof -
  have p1: "lastFastPublish s1 = millis (tPubSet x)"
    using loop_publish(2) [OF x] fx by simp
  have "sorted (clock x @ (concat (map clock mid) @ clock y))"
    using mono by (simp add: monotoneClock_def)
  then have "sorted (tPubSet x # concat (map clock mid) @ clock y)"
    using tPubSet_clock [of x] by (auto simp add: sorted_append)
  from run_lastFastPublish [OF mid p1 this] obtain T' where
    p2: "lastFastPublish s2 = millis T'" and le: "tPubSet x \<le> T'" and so: "sorted (T' # clock y)"
    by blast
  have t: "T' \<le> tPub y"
    using so tPub_clock [of y] by simp
  from loop_publish(1) [OF y] fy have
    pos: "0 <s fastPublishPeriod s3" and
    el: "fastPublishPeriod s3 \<le> millis (tPub y) - millis T'"
    by (simp_all add: p2)
  from elapsed_real [OF t el] have "T' + unat (fastPublishPeriod s3) \<le> tPub y" .
  with le have "int (tPubSet x) + int (unat (fastPublishPeriod s3)) \<le> int (tPub y)"
    by linarith
  then show ?thesis
    unfolding positive_sint [OF pos] .
qed

lemma fastPublish_fires:
  "fires (fst (fastPublish x s)) =
     (connected x \<and> idleRPM s \<le>s lastRPM s \<and> 0 <s fastPublishPeriod s
      \<and> fastPublishPeriod s \<le> millis (tPub x) - lastFastPublish s)"
  using fastPublish_eq [of x s "fst (fastPublish x s)" "snd (fastPublish x s)"] by simp

text \<open>
  Claim C6.  The adaptive publish fires only when the cloud is connected, the latest RPM
  sample is greater than or equal to the RPM idle threshold, \<open>fastPublishPeriod\<close> is
  positive, and at least \<open>fastPublishPeriod\<close> milliseconds have passed, on the 32-bit
  clock, since \<open>lastFastPublish\<close>; it then records the time in \<open>lastFastPublish\<close>.  This
  holds for the block alone and for a pass of \<open>loop()\<close>, where the values in force at
  the check are those of the state after the pass.  In every execution in which time
  does not run backwards, when a pass fires and any later pass fires, the later check is
  at least \<open>fastPublishPeriod\<close> true milliseconds after the time recorded at the earlier
  firing, whatever the samples and settings in between.
\<close>

theorem C6_adaptive_publish:
  "(fires (fst (fastPublish x s)) \<longrightarrow>
      connected x \<and> idleRPM s \<le>s lastRPM s \<and> 0 <s fastPublishPeriod s
      \<and> fastPublishPeriod s \<le> millis (tPub x) - lastFastPublish s)
   \<and> (loop x s = Some (e1, s1) \<and> fires e1 \<longrightarrow>
      connected x \<and> idleRPM s1 \<le>s lastRPM s1 \<and> 0 <s fastPublishPeriod s1
      \<and> fastPublishPeriod s1 \<le> millis (tPub x) - lastFastPublish s
      \<and> lastFastPublish s1 = millis (tPubSet x))
   \<and> (loop x s = Some (e1, s1) \<and> fires e1 \<and> run s1 mid = Some s2
       \<and> loop y s2 = Some (e2, s3) \<and> fires e2 \<and> monotoneClock (x # mid @ [y]) \<longrightarrow>
      int (tPubSet x) + sint (fastPublishPeriod s3) \<le> int (tPub y))"
proof -
  have a: "fires (fst (fastPublish x s)) \<longrightarrow>
      connected x \<and> idleRPM s \<le>s lastRPM s \<and> 0 <s fastPublishPeriod s
      \<and> fastPublishPeriod s \<le> millis (tPub x) - lastFastPublish s"
    by (simp add: fastPublish_fires)
  have b: "loop x s = Some (e1, s1) \<and> fires e1 \<longrightarrow>
      connected x \<and> idleRPM s1 \<le>s lastRPM s1 \<and> 0 <s fastPublishPeriod s1
      \<and> fastPublishPeriod s1 \<le> millis (tPub x) - lastFastPublish s
      \<and> lastFastPublish s1 = millis (tPubSet x)"
  proof
    assume "loop x s = Some (e1, s1) \<and> fires e1"
    then have l: "loop x s = Some (e1, s1)" and f: "fires e1"
      by simp_all
    from loop_publish [OF l] f
    show "connected x \<and> idleRPM s1 \<le>s lastRPM s1 \<and> 0 <s fastPublishPeriod s1
        \<and> fastPublishPeriod s1 \<le> millis (tPub x) - lastFastPublish s
        \<and> lastFastPublish s1 = millis (tPubSet x)"
      by simp
  qed
  have c: "loop x s = Some (e1, s1) \<and> fires e1 \<and> run s1 mid = Some s2
       \<and> loop y s2 = Some (e2, s3) \<and> fires e2 \<and> monotoneClock (x # mid @ [y]) \<longrightarrow>
      int (tPubSet x) + sint (fastPublishPeriod s3) \<le> int (tPub y)"
    using between_firings [of x s e1 s1 mid s2 y e2 s3] by blast
  from a b c show ?thesis
    by (intro conjI)
qed

lemma firstPass_loop:
  "loop firstPass init_state =
     Some ([LogManualPublish 2000 1600 20, TriggerLocPub],
           init_state\<lparr>lastRPM := 2000, lastFastPublish := 50, fastPublishPeriod := 20\<rparr>)"
  by code_simp

lemma secondPass_loop:
  "loop secondPass (init_state\<lparr>lastRPM := 2000, lastFastPublish := 50, fastPublishPeriod := 20\<rparr>) =
     Some ([LogManualPublish 2000 1600 20, TriggerLocPub],
           init_state\<lparr>lastRPM := 2000, lastFastPublish := 80, fastPublishPeriod := 20\<rparr>)"
  by code_simp

lemma two_pass_clock: "monotoneClock (firstPass # [] @ [secondPass])"
  by code_simp

text \<open>
  The witness of C6: the pass at 50 ms fires and the pass at 80 ms fires, 30 ms later, with
  the period 20 ms.
\<close>

theorem C6_adaptive_publish_witness:
  "fires [LogManualPublish 2000 1600 20, TriggerLocPub]
   \<and> fires (fst (fastPublish firstPass (init_state\<lparr>lastRPM := 2000, fastPublishPeriod := 20\<rparr>)))
   \<and> lastFastPublish (init_state\<lparr>lastRPM := 2000, lastFastPublish := 50, fastPublishPeriod := 20\<rparr>)
       = millis (tPubSet firstPass)
   \<and> int (tPubSet firstPass)
       + sint (fastPublishPeriod
                 (init_state\<lparr>lastRPM := 2000, lastFastPublish := 80, fastPublishPeriod := 20\<rparr>))
       \<le> int (tPub secondPass)"
proof -
  let ?e = "[LogManualPublish 2000 1600 20, TriggerLocPub]"
  let ?s1 = "init_state\<lparr>lastRPM := 2000, lastFastPublish := 50, fastPublishPeriod := 20\<rparr>"
  let ?s3 = "init_state\<lparr>lastRPM := 2000, lastFastPublish := 80, fastPublishPeriod := 20\<rparr>"
  have f: "fires ?e"
    by (simp add: fires_def)
  have b: "fires (fst (fastPublish firstPass (init_state\<lparr>lastRPM := 2000, fastPublishPeriod := 20\<rparr>)))"
    by code_simp
  have r: "run ?s1 [] = Some ?s1"
    by simp
  note c = C6_adaptive_publish [where x = firstPass and s = init_state and ?e1.0 = ?e
      and ?s1.0 = ?s1 and mid = "[]" and ?s2.0 = ?s1 and y = secondPass and ?e2.0 = ?e
      and ?s3.0 = ?s3]
  have h2: "loop firstPass init_state = Some (?e, ?s1) \<and> fires ?e"
    using firstPass_loop f by simp
  have h3: "loop firstPass init_state = Some (?e, ?s1) \<and> fires ?e \<and> run ?s1 [] = Some ?s1
       \<and> loop secondPass ?s1 = Some (?e, ?s3) \<and> fires ?e
       \<and> monotoneClock (firstPass # [] @ [secondPass])"
    using firstPass_loop secondPass_loop f r two_pass_clock by simp
  from c [THEN conjunct2, THEN conjunct1, rule_format, OF h2]
  have "lastFastPublish ?s1 = millis (tPubSet firstPass)"
    by simp
  moreover from c [THEN conjunct2, THEN conjunct2, rule_format, OF h3]
  have "int (tPubSet firstPass) + sint (fastPublishPeriod ?s3) \<le> int (tPub secondPass)" .
  ultimately show ?thesis
    using f b by simp
qed

lemma fastPublish_disabled: "fastPublishPeriod s = 0 \<Longrightarrow> fastPublish x s = ([], s)"
  by (simp add: fastPublish_def)

text \<open>
  Claim C9.  With \<open>fastPublishPeriod = 0\<close> the adaptive publish does nothing, whatever the
  RPM, the connection and the time: the block returns the state unchanged and without
  effect, and a pass of \<open>loop()\<close> during which the period is 0 neither calls
  \<open>triggerLocPub()\<close> nor writes \<open>lastFastPublish\<close>.
\<close>

theorem C9_zero_period_disables:
  "(fastPublishPeriod s = 0 \<longrightarrow> fastPublish x s = ([], s))
   \<and> (loop x s = Some (e, s') \<and> fastPublishPeriod s' = 0 \<longrightarrow>
        \<not> fires e \<and> lastFastPublish s' = lastFastPublish s)"
proof -
  have a: "fastPublishPeriod s = 0 \<longrightarrow> fastPublish x s = ([], s)"
    by (simp add: fastPublish_disabled)
  have b: "loop x s = Some (e, s') \<and> fastPublishPeriod s' = 0 \<longrightarrow>
        \<not> fires e \<and> lastFastPublish s' = lastFastPublish s"
  proof
    assume "loop x s = Some (e, s') \<and> fastPublishPeriod s' = 0"
    then have l: "loop x s = Some (e, s')" and z: "fastPublishPeriod s' = 0"
      by simp_all
    from loop_publish(1) [OF l] z have n: "\<not> fires e"
      by simp
    with loop_publish(2) [OF l] show "\<not> fires e \<and> lastFastPublish s' = lastFastPublish s"
      by simp
  qed
  from a b show ?thesis
    by (intro conjI)
qed

lemma disabledPass_loop:
  "loop disabledPass init_state = Some ([], init_state\<lparr>lastRPM := 2000, fastPublishPeriod := 0\<rparr>)"
  by code_simp

text \<open>
  The witness of C9: 5000 RPM, connected, a million milliseconds after the last publish;
  and the pass at 50 ms that sets the period to 0 while a reply with 2000 RPM arrives.
\<close>

theorem C9_zero_period_disables_witness:
  "fastPublish (passAt 1000000) (init_state\<lparr>lastRPM := 5000, fastPublishPeriod := 0\<rparr>)
     = ([], init_state\<lparr>lastRPM := 5000, fastPublishPeriod := 0\<rparr>)
   \<and> connected (passAt 1000000)
   \<and> rpmReplyArrives disabledPass \<and> connected disabledPass
   \<and> \<not> fires []
   \<and> lastFastPublish (init_state\<lparr>lastRPM := 2000, fastPublishPeriod := 0\<rparr>)
       = lastFastPublish init_state"
proof -
  let ?s = "init_state\<lparr>lastRPM := 5000, fastPublishPeriod := 0\<rparr>"
  let ?t = "init_state\<lparr>lastRPM := 2000, fastPublishPeriod := 0\<rparr>"
  have h1: "fastPublishPeriod ?s = 0"
    by simp
  have h2: "loop disabledPass init_state = Some ([], ?t) \<and> fastPublishPeriod ?t = 0"
    using disabledPass_loop by simp
  note c = C9_zero_period_disables [of init_state disabledPass "[]" ?t]
  note d = C9_zero_period_disables [of ?s "passAt 1000000"]
  have i: "connected (passAt 1000000) \<and> rpmReplyArrives disabledPass \<and> connected disabledPass"
    by (simp add: passAt_def disabledPass_def rpmReplyArrives_def rpmFrame_def)
  have n: "\<not> fires [] \<and> lastFastPublish ?t = lastFastPublish init_state"
    using c [THEN conjunct2, rule_format, OF h2] .
  from d [THEN conjunct1, rule_format, OF h1] i n
  show ?thesis
    by (intro conjI) simp_all
qed

section \<open>The latest RPM sample over passes of \<open>loop()\<close>\<close>

lemma receiveCan_lastRPM:
  "\<not> rpmReplyArrives x \<Longrightarrow> lastRPM (receiveCan x s) = lastRPM s"
  by (auto simp add: receiveCan_def rpmReplyArrives_def handleCan_def OBD_CAN_REPLY_ID_def
        PID_ENGINE_RPM_def Let_def split: option.splits)

text \<open>What one pass does to the latest RPM sample.\<close>

lemma loop_lastRPM:
  assumes "loop x s = Some (e, s')"
  shows "rpmDue x s \<Longrightarrow> lastRPM s' = 0"
    and "\<not> rpmDue x s \<Longrightarrow> \<not> rpmReplyArrives x \<Longrightarrow> lastRPM s' = lastRPM s"
    and "\<exists>e' s4 e5. e = e' @ e5 \<and> \<not> fires e' \<and> fastPublish x s4 = (e5, s')
           \<and> lastRPM s4 = lastRPM s'"
proof -
  from assms obtain e0 s0 e2 s2 e3 s3 e4 s4 e5 where
    a: "trackerLoop x s = Some (e0, s0)" and
    b: "requestRpm x (receiveCan x s0) = (e2, s2)" and
    c: "requestSpeed x s2 = (e3, s3)" and
    d: "engineLog x s3 = Some (e4, s4)" and
    f: "fastPublish x s4 = (e5, s')" and
    e: "e = e0 @ e2 @ e3 @ e4 @ e5"
    by (rule loopE)
  note A = trackerLoop_eq [OF a] and B = requestRpm_eq [OF b] and C = requestSpeed_eq [OF c]
    and D = engineLog_keeps [OF d] and F = fastPublish_eq [OF f]
  have r0: "requestRpmLastMillis s0 = requestRpmLastMillis s" and l0: "lastRPM s0 = lastRPM s"
    using A by (simp_all split: if_splits)
  have due: "rpmDue x (receiveCan x s0) = rpmDue x s"
    using r0 by (simp add: rpmDue_def)
  have l4: "lastRPM s' = lastRPM s4"
    using F by (simp split: if_splits)
  have l2: "lastRPM s4 = (if rpmDue x s then 0 else lastRPM (receiveCan x s0))"
    using B C D by (simp add: due)
  show "rpmDue x s \<Longrightarrow> lastRPM s' = 0"
    using l4 l2 by simp
  show "\<not> rpmDue x s \<Longrightarrow> \<not> rpmReplyArrives x \<Longrightarrow> lastRPM s' = lastRPM s"
    using l4 l2 l0 by (simp add: receiveCan_lastRPM)
  have "e = (e0 @ e2 @ e3 @ e4) @ e5 \<and> \<not> fires (e0 @ e2 @ e3 @ e4)"
    using A B C D by (simp add: e)
  with f l4 have "e = (e0 @ e2 @ e3 @ e4) @ e5 \<and> \<not> fires (e0 @ e2 @ e3 @ e4)
      \<and> fastPublish x s4 = (e5, s') \<and> lastRPM s4 = lastRPM s'"
    by simp
  then show "\<exists>e' s4 e5. e = e' @ e5 \<and> \<not> fires e' \<and> fastPublish x s4 = (e5, s')
           \<and> lastRPM s4 = lastRPM s'"
    by (intro exI)
qed

lemma run_append:
  "run s (xs @ ys) = (case run s xs of None \<Rightarrow> None | Some s1 \<Rightarrow> run s1 ys)"
  by (induction xs arbitrary: s) (auto split: option.splits)

lemma noRpmBoundary_append:
  "run s xs = Some s1 \<Longrightarrow>
   noRpmBoundary s (xs @ ys) = (noRpmBoundary s xs \<and> noRpmBoundary s1 ys)"
  by (induction xs arbitrary: s) (auto split: option.splits)

lemma rpm_reply_since_boundary:
  "run s0 xs = Some s \<Longrightarrow> lastRPM s0 = 0 \<Longrightarrow> lastRPM s \<noteq> 0 \<Longrightarrow>
   \<exists>u y v su. xs = u @ y # v \<and> run s0 u = Some su \<and> rpmReplyArrives y
     \<and> noRpmBoundary su (y # v)"
proof (induction xs arbitrary: s rule: rev_induct)
  case Nil
  then show ?case by simp
next
  case (snoc x xs)
  from snoc.prems(1) obtain s1 e where
    r: "run s0 xs = Some s1" and l: "loop x s1 = Some (e, s)"
    by (auto simp add: run_append split: option.splits)
  have nd: "\<not> rpmDue x s1"
    using loop_lastRPM(1) [OF l] snoc.prems(3) by blast
  have one: "noRpmBoundary s1 [x]"
    using nd l by simp
  show ?case
  proof (cases "rpmReplyArrives x")
    case True
    with r one have "xs @ [x] = xs @ x # [] \<and> run s0 xs = Some s1 \<and> rpmReplyArrives x
        \<and> noRpmBoundary s1 (x # [])"
      by simp
    then show ?thesis by blast
  next
    case False
    then have "lastRPM s1 \<noteq> 0"
      using loop_lastRPM(2) [OF l nd] snoc.prems(3) by simp
    from snoc.IH [OF r snoc.prems(2) this] obtain u y v su where
      xs: "xs = u @ y # v" and u: "run s0 u = Some su" and y: "rpmReplyArrives y"
      and nb: "noRpmBoundary su (y # v)"
      by blast
    have "run su (y # v) = Some s1"
      using r u by (simp add: xs run_append)
    then have "noRpmBoundary su ((y # v) @ [x])"
      using nb one by (simp only: noRpmBoundary_append)
    then have "xs @ [x] = u @ y # (v @ [x]) \<and> run s0 u = Some su \<and> rpmReplyArrives y
        \<and> noRpmBoundary su (y # (v @ [x]))"
      using xs u y by simp
    then show ?thesis by blast
  qed
qed

lemma fired_nonzero:
  fixes a b :: cint
  shows "0 <s a \<Longrightarrow> a \<le>s b \<Longrightarrow> b \<noteq> 0"
  by (auto simp add: word_sless_alt word_sle_eq)

text \<open>
  Claim C10.  In a pass of \<open>loop()\<close> that reaches the RPM period boundary, the adaptive
  publish block runs on a state whose \<open>lastRPM\<close> is 0 (the blocks before it do not
  fire, and \<open>lastRPM\<close> is 0 after the pass); so with a positive RPM idle threshold the
  adaptive publish does not fire in that pass.  In an execution from a state with
  \<open>lastRPM = 0\<close>, such as the initial one, a pass in which it fires with a positive
  threshold comes after a pass, possibly the same, in which an RPM reply arrived, and
  no pass from that one on reaches the RPM period boundary.
\<close>

theorem C10_boundary_clears_sample:
  "(loop x s = Some (e, s') \<and> rpmDue x s \<longrightarrow>
      (\<exists>e' s4 e5. e = e' @ e5 \<and> \<not> fires e' \<and> fastPublish x s4 = (e5, s') \<and> lastRPM s4 = 0)
      \<and> lastRPM s' = 0
      \<and> (0 <s idleRPM s' \<longrightarrow> \<not> fires e))
   \<and> (lastRPM s0 = 0 \<and> run s0 pre = Some s \<and> loop x s = Some (e, s') \<and> fires e
       \<and> 0 <s idleRPM s' \<longrightarrow>
      (\<exists>u y v su. pre @ [x] = u @ y # v \<and> run s0 u = Some su \<and> rpmReplyArrives y
         \<and> noRpmBoundary su (y # v)))"
proof -
  have a: "loop x s = Some (e, s') \<and> rpmDue x s \<longrightarrow>
      (\<exists>e' s4 e5. e = e' @ e5 \<and> \<not> fires e' \<and> fastPublish x s4 = (e5, s') \<and> lastRPM s4 = 0)
      \<and> lastRPM s' = 0
      \<and> (0 <s idleRPM s' \<longrightarrow> \<not> fires e)"
  proof
    assume "loop x s = Some (e, s') \<and> rpmDue x s"
    then have l: "loop x s = Some (e, s')" and d: "rpmDue x s"
      by simp_all
    have z: "lastRPM s' = 0"
      using loop_lastRPM(1) [OF l d] .
    have "0 <s idleRPM s' \<longrightarrow> \<not> fires e"
      using loop_publish(1) [OF l] fired_nonzero [of "idleRPM s'" "lastRPM s'"] z by auto
    with loop_lastRPM(3) [OF l] z
    show "(\<exists>e' s4 e5. e = e' @ e5 \<and> \<not> fires e' \<and> fastPublish x s4 = (e5, s') \<and> lastRPM s4 = 0)
      \<and> lastRPM s' = 0
      \<and> (0 <s idleRPM s' \<longrightarrow> \<not> fires e)"
      by simp
  qed
  have b: "lastRPM s0 = 0 \<and> run s0 pre = Some s \<and> loop x s = Some (e, s') \<and> fires e
       \<and> 0 <s idleRPM s' \<longrightarrow>
      (\<exists>u y v su. pre @ [x] = u @ y # v \<and> run s0 u = Some su \<and> rpmReplyArrives y
         \<and> noRpmBoundary su (y # v))"
  proof
    assume h: "lastRPM s0 = 0 \<and> run s0 pre = Some s \<and> loop x s = Some (e, s') \<and> fires e
       \<and> 0 <s idleRPM s'"
    then have l: "loop x s = Some (e, s')" and r: "run s0 pre = Some s"
      by simp_all
    from h loop_publish(1) [OF l] have "lastRPM s' \<noteq> 0"
      using fired_nonzero [of "idleRPM s'" "lastRPM s'"] by simp
    moreover have "run s0 (pre @ [x]) = Some s'"
      using r l by (simp add: run_append)
    ultimately show "\<exists>u y v su. pre @ [x] = u @ y # v \<and> run s0 u = Some su
        \<and> rpmReplyArrives y \<and> noRpmBoundary su (y # v)"
      using h rpm_reply_since_boundary [of s0 "pre @ [x]" s'] by blast
  qed
  from a b show ?thesis
    by (intro conjI)
qed

lemma boundaryPass_loop:
  "loop boundaryPass init_state =
     Some ([], init_state\<lparr>requestRpmLastMillis := 150, requestSpeedLastMillis := 150,
             numSamplesRPM := 1, numSamplesSPEED := 1, offSamplesSPEED := 1,
             nonIdleSamplesRPM := 1, nonIdleSumRPM := 2000, nonIdleMinRPM := 2000,
             nonIdleMaxRPM := 2000\<rparr>)"
  by code_simp

text \<open>
  The witness of C10: the pass at 150 ms reaches the boundary and does not fire, though
  connected and with a reply of 2000 RPM; the pass at 50 ms fires, with its own reply.
\<close>

theorem C10_boundary_clears_sample_witness:
  "rpmReplyArrives boundaryPass \<and> connected boundaryPass \<and> rpmDue boundaryPass init_state
   \<and> \<not> fires []
   \<and> (\<exists>u y v su. [] @ [firstPass] = u @ y # v \<and> run init_state u = Some su
         \<and> rpmReplyArrives y \<and> noRpmBoundary su (y # v))"
proof -
  let ?t = "init_state\<lparr>requestRpmLastMillis := 150, requestSpeedLastMillis := 150,
             numSamplesRPM := 1, numSamplesSPEED := 1, offSamplesSPEED := 1,
             nonIdleSamplesRPM := 1, nonIdleSumRPM := 2000, nonIdleMinRPM := 2000,
             nonIdleMaxRPM := 2000\<rparr>"
  let ?e = "[LogManualPublish 2000 1600 20, TriggerLocPub]"
  let ?s1 = "init_state\<lparr>lastRPM := 2000, lastFastPublish := 50, fastPublishPeriod := 20\<rparr>"
  have i: "rpmReplyArrives boundaryPass \<and> connected boundaryPass"
    by (simp add: boundaryPass_def passAt_def rpmReplyArrives_def rpmFrame_def)
  have d: "rpmDue boundaryPass init_state"
    by code_simp
  have h1: "loop boundaryPass init_state = Some ([], ?t) \<and> rpmDue boundaryPass init_state"
    using boundaryPass_loop d by simp
  have p: "0 <s idleRPM ?t"
    by (simp add: init_state_def word_sless_alt)
  have n: "\<not> fires []"
    using C10_boundary_clears_sample [where x = boundaryPass and s = init_state and e = "[]"
        and s' = ?t, THEN conjunct1, rule_format, OF h1] p
    by blast
  have h2: "lastRPM init_state = 0 \<and> run init_state [] = Some init_state
      \<and> loop firstPass init_state = Some (?e, ?s1) \<and> fires ?e \<and> 0 <s idleRPM ?s1"
    using firstPass_loop by (simp add: init_state_def fires_def word_sless_alt)
  have "\<exists>u y v su. [] @ [firstPass] = u @ y # v \<and> run init_state u = Some su
         \<and> rpmReplyArrives y \<and> noRpmBoundary su (y # v)"
    using C10_boundary_clears_sample [where x = firstPass and s = init_state and e = ?e
        and s' = ?s1 and ?s0.0 = init_state and pre = "[]", THEN conjunct2, rule_format, OF h2] .
  with i d n show ?thesis
    by blast
qed

section \<open>The sentinels of minimum and maximum\<close>

lemma increment_nonzero:
  fixes n :: cint
  assumes "0 \<le> sint n" and "sint n \<le> sint (n + 1)"
  shows "0 \<le> sint (n + 1)" and "n + 1 \<noteq> 0"
proof -
  show "0 \<le> sint (n + 1)"
    using assms by linarith
  show "n + 1 \<noteq> 0"
  proof
    assume z: "n + 1 = 0"
    with assms have "sint n = 0"
      by simp
    then have "sint n = sint (0 :: cint)"
      by simp
    then have "n = 0"
      by (rule signed_word_eqI)
    with z show False
      by simp
  qed
qed

lemma recordRPM_nonIdleSamples:
  "nonIdleSamplesRPM (recordRPM s) = nonIdleSamplesRPM s \<and> nonIdleMinRPM (recordRPM s) = nonIdleMinRPM s
     \<and> nonIdleMaxRPM (recordRPM s) = nonIdleMaxRPM s
   \<or> nonIdleSamplesRPM (recordRPM s) = nonIdleSamplesRPM s + 1"
  by (cases "lastRPM s = 0"; cases "lastRPM s <s idleRPM s")
     (simp_all add: recordRPM_off recordRPM_idle recordRPM_nonIdle)

lemma recordSPEED_nonIdleSamples:
  "nonIdleSamplesSPEED (recordSPEED s) = nonIdleSamplesSPEED s
     \<and> nonIdleMinSPEED (recordSPEED s) = nonIdleMinSPEED s
     \<and> nonIdleMaxSPEED (recordSPEED s) = nonIdleMaxSPEED s
   \<or> nonIdleSamplesSPEED (recordSPEED s) = nonIdleSamplesSPEED s + 1"
  by (cases "lastSPEED s = 0"; cases "lastSPEED s <s idleSPEED s")
     (simp_all add: recordSPEED_off recordSPEED_idle recordSPEED_nonIdle)

lemma recordRPM_speed_fields [simp]:
  "nonIdleSamplesSPEED (recordRPM s) = nonIdleSamplesSPEED s"
  "nonIdleMinSPEED (recordRPM s) = nonIdleMinSPEED s"
  "nonIdleMaxSPEED (recordRPM s) = nonIdleMaxSPEED s"
  by (simp_all add: recordRPM_def Let_def)

lemma recordSPEED_rpm_fields [simp]:
  "nonIdleSamplesRPM (recordSPEED s) = nonIdleSamplesRPM s"
  "nonIdleMinRPM (recordSPEED s) = nonIdleMinRPM s"
  "nonIdleMaxRPM (recordSPEED s) = nonIdleMaxRPM s"
  by (simp_all add: recordSPEED_def Let_def)

lemma handleCan_nonIdle_fields [simp]:
  "nonIdleSamplesRPM (handleCan f s) = nonIdleSamplesRPM s"
  "nonIdleMinRPM (handleCan f s) = nonIdleMinRPM s"
  "nonIdleMaxRPM (handleCan f s) = nonIdleMaxRPM s"
  "nonIdleSamplesSPEED (handleCan f s) = nonIdleSamplesSPEED s"
  "nonIdleMinSPEED (handleCan f s) = nonIdleMinSPEED s"
  "nonIdleMaxSPEED (handleCan f s) = nonIdleMaxSPEED s"
  by (simp_all add: handleCan_def Let_def)

text \<open>The invariant behind C7: the counters are not negative, and the sentinels stand.\<close>

lemma sentinel_step:
  assumes d: "countDefined e s"
    and r: "0 \<le> sint (nonIdleSamplesRPM s)" "sentinelRPM s"
    and v: "0 \<le> sint (nonIdleSamplesSPEED s)" "sentinelSPEED s"
  shows "0 \<le> sint (nonIdleSamplesRPM (step e s)) \<and> sentinelRPM (step e s)
     \<and> 0 \<le> sint (nonIdleSamplesSPEED (step e s)) \<and> sentinelSPEED (step e s)"
proof (cases e)
  case (Frame f)
  with r v show ?thesis
    by (simp add: sentinelRPM_def sentinelSPEED_def)
next
  case RpmPeriod
  with d have le: "sint (nonIdleSamplesRPM s) \<le> sint (nonIdleSamplesRPM (recordRPM s))"
    by (simp add: countDefined_def)
  have "0 \<le> sint (nonIdleSamplesRPM (recordRPM s)) \<and> sentinelRPM (recordRPM s)"
    using recordRPM_nonIdleSamples [of s]
  proof
    assume "nonIdleSamplesRPM (recordRPM s) = nonIdleSamplesRPM s
      \<and> nonIdleMinRPM (recordRPM s) = nonIdleMinRPM s
      \<and> nonIdleMaxRPM (recordRPM s) = nonIdleMaxRPM s"
    with r show ?thesis
      by (simp add: sentinelRPM_def)
  next
    assume i: "nonIdleSamplesRPM (recordRPM s) = nonIdleSamplesRPM s + 1"
    with le have "sint (nonIdleSamplesRPM s) \<le> sint (nonIdleSamplesRPM s + 1)"
      by simp
    from increment_nonzero [OF r(1) this] show ?thesis
      by (simp add: i sentinelRPM_def)
  qed
  with v RpmPeriod show ?thesis
    by (simp add: sentinelSPEED_def)
next
  case SpeedPeriod
  with d have le: "sint (nonIdleSamplesSPEED s) \<le> sint (nonIdleSamplesSPEED (recordSPEED s))"
    by (simp add: countDefined_def)
  have "0 \<le> sint (nonIdleSamplesSPEED (recordSPEED s)) \<and> sentinelSPEED (recordSPEED s)"
    using recordSPEED_nonIdleSamples [of s]
  proof
    assume "nonIdleSamplesSPEED (recordSPEED s) = nonIdleSamplesSPEED s
      \<and> nonIdleMinSPEED (recordSPEED s) = nonIdleMinSPEED s
      \<and> nonIdleMaxSPEED (recordSPEED s) = nonIdleMaxSPEED s"
    with v show ?thesis
      by (simp add: sentinelSPEED_def)
  next
    assume i: "nonIdleSamplesSPEED (recordSPEED s) = nonIdleSamplesSPEED s + 1"
    with le have "sint (nonIdleSamplesSPEED s) \<le> sint (nonIdleSamplesSPEED s + 1)"
      by simp
    from increment_nonzero [OF v(1) this] show ?thesis
      by (simp add: i sentinelSPEED_def)
  qed
  with r SpeedPeriod show ?thesis
    by (simp add: sentinelRPM_def)
next
  case ReadReset
  then show ?thesis
    by (simp add: step_ReadReset resetStats_fields sentinelRPM_def sentinelSPEED_def
          del: step.simps(4))
next
  case (Configure a b c)
  with r v show ?thesis
    by (simp add: sentinelRPM_def sentinelSPEED_def)
qed

lemma sentinel_steps:
  "definedRun s evs \<Longrightarrow>
   0 \<le> sint (nonIdleSamplesRPM s) \<and> sentinelRPM s
     \<and> 0 \<le> sint (nonIdleSamplesSPEED s) \<and> sentinelSPEED s \<Longrightarrow>
   0 \<le> sint (nonIdleSamplesRPM (steps s evs)) \<and> sentinelRPM (steps s evs)
     \<and> 0 \<le> sint (nonIdleSamplesSPEED (steps s evs)) \<and> sentinelSPEED (steps s evs)"
proof (induction evs arbitrary: s)
  case Nil
  then show ?case by simp
next
  case (Cons e evs)
  from Cons.prems(1) have d: "countDefined e s" and rest: "definedRun (step e s) evs"
    by simp_all
  from Cons.prems(2) sentinel_step [OF d]
  have "0 \<le> sint (nonIdleSamplesRPM (step e s)) \<and> sentinelRPM (step e s)
     \<and> 0 \<le> sint (nonIdleSamplesSPEED (step e s)) \<and> sentinelSPEED (step e s)"
    by blast
  from Cons.IH [OF rest this] show ?case
    by simp
qed

lemma sentinel_init:
  "0 \<le> sint (nonIdleSamplesRPM init_state) \<and> sentinelRPM init_state
     \<and> 0 \<le> sint (nonIdleSamplesSPEED init_state) \<and> sentinelSPEED init_state"
  by (simp add: init_state_def sentinelRPM_def sentinelSPEED_def)

lemma sint_increment:
  fixes n :: cint
  assumes "sint n + 1 < 2147483648"
  shows "sint (n + 1) = sint n + 1"
proof -
  have "- 2147483648 \<le> sint n"
    using sint_ge [of n] by simp
  then have "signed_take_bit 31 (sint n + 1) = sint n + 1"
    using assms by (intro signed_take_bit_int_eq_self) simp_all
  then show ?thesis
    by (simp add: sint_word_ariths)
qed

lemma step_counters:
  "e = ReadReset \<and> nonIdleSamplesRPM (step e s) = 0
   \<or> e = RpmPeriod \<and> nonIdleSamplesRPM (step e s) = nonIdleSamplesRPM s + 1
   \<or> nonIdleSamplesRPM (step e s) = nonIdleSamplesRPM s"
  "e = ReadReset \<and> nonIdleSamplesSPEED (step e s) = 0
   \<or> e = SpeedPeriod \<and> nonIdleSamplesSPEED (step e s) = nonIdleSamplesSPEED s + 1
   \<or> nonIdleSamplesSPEED (step e s) = nonIdleSamplesSPEED s"
  using recordRPM_nonIdleSamples [of s] recordSPEED_nonIdleSamples [of s]
  by (cases e; auto simp add: step_ReadReset resetStats_fields simp del: step.simps(4))+

text \<open>Fewer than \<open>2 ^ 31\<close> events cannot make a counter wrap around.\<close>

lemma definedRun_short:
  "0 \<le> sint (nonIdleSamplesRPM s) \<Longrightarrow>
   sint (nonIdleSamplesRPM s) + int (length evs) < 2147483648 \<Longrightarrow>
   0 \<le> sint (nonIdleSamplesSPEED s) \<Longrightarrow>
   sint (nonIdleSamplesSPEED s) + int (length evs) < 2147483648 \<Longrightarrow>
   definedRun s evs"
proof (induction evs arbitrary: s)
  case Nil
  then show ?case by simp
next
  case (Cons e evs)
  let ?r = "nonIdleSamplesRPM" and ?v = "nonIdleSamplesSPEED"
  have r1: "sint (?r s + 1) = sint (?r s) + 1"
    using Cons.prems(2) by (intro sint_increment) simp
  have v1: "sint (?v s + 1) = sint (?v s) + 1"
    using Cons.prems(4) by (intro sint_increment) simp
  have r: "0 \<le> sint (?r (step e s)) \<and> sint (?r (step e s)) \<le> sint (?r s) + 1
      \<and> (e = RpmPeriod \<longrightarrow> sint (?r s) \<le> sint (?r (step e s)))"
    using step_counters(1) [of e s] Cons.prems(1) r1 by auto
  have v: "0 \<le> sint (?v (step e s)) \<and> sint (?v (step e s)) \<le> sint (?v s) + 1
      \<and> (e = SpeedPeriod \<longrightarrow> sint (?v s) \<le> sint (?v (step e s)))"
    using step_counters(2) [of e s] Cons.prems(3) v1 by auto
  have d: "countDefined e s"
    using r v by (cases e) (simp_all add: countDefined_def)
  have "definedRun (step e s) evs"
    using r v Cons.prems(2,4) by (intro Cons.IH) simp_all
  with d show ?case
    by simp
qed

lemma sint_INT_MAX: "sint INT_MAX = 2147483647"
  by (simp add: INT_MAX_def)

lemma no_wrap_iff:
  fixes n :: cint
  shows "sint n \<le> sint (n + 1) \<longleftrightarrow> n \<noteq> INT_MAX"
proof
  assume le: "sint n \<le> sint (n + 1)"
  show "n \<noteq> INT_MAX"
  proof
    assume "n = INT_MAX"
    with le show False
      by (simp add: INT_MAX_def)
  qed
next
  assume ne: "n \<noteq> INT_MAX"
  have "sint n \<noteq> sint INT_MAX"
    using ne signed_word_eqI [of n INT_MAX] by blast
  moreover have "sint n < 2147483648"
    using sint_lt [of n] by simp
  ultimately have "sint n + 1 < 2147483648"
    by (simp add: sint_INT_MAX)
  then show "sint n \<le> sint (n + 1)"
    by (simp add: sint_increment)
qed

text \<open>
  A period boundary is defined unless it counts a non-idle sample with the counter at
  \<open>INT_MAX\<close>.
\<close>

lemma countDefined_RpmPeriod:
  "countDefined RpmPeriod s =
     (lastRPM s \<noteq> 0 \<and> \<not> lastRPM s <s idleRPM s \<longrightarrow> nonIdleSamplesRPM s \<noteq> INT_MAX)"
  by (cases "lastRPM s = 0"; cases "lastRPM s <s idleRPM s")
     (simp_all add: countDefined_def recordRPM_off recordRPM_idle recordRPM_nonIdle no_wrap_iff)

lemma countDefined_SpeedPeriod:
  "countDefined SpeedPeriod s =
     (lastSPEED s \<noteq> 0 \<and> \<not> lastSPEED s <s idleSPEED s \<longrightarrow> nonIdleSamplesSPEED s \<noteq> INT_MAX)"
  by (cases "lastSPEED s = 0"; cases "lastSPEED s <s idleSPEED s")
     (simp_all add: countDefined_def recordSPEED_off recordSPEED_idle recordSPEED_nonIdle
        no_wrap_iff)

text \<open>
  Claim C7, as amended.  For the RPM and for the speed, in every state reached from the initial
  state by a sequence of events (frames, period boundaries, read and reset, changes of
  the settings) in which no non-idle counter overflows, \<open>nonIdleSamples = 0\<close> implies
  \<open>nonIdleMin = 0\<close> and \<open>nonIdleMax = 0\<close>; a read made then, by the telemetry callback or
  by the debug log, reports 0 for the minimum and the maximum.  By \<open>definedRun_short\<close>
  every sequence of fewer than \<open>2 ^ 31\<close> events is such a sequence, and by
  \<open>countDefined_RpmPeriod\<close> and \<open>countDefined_SpeedPeriod\<close> the only events that are
  not defined are the boundaries that count a non-idle sample at \<open>INT_MAX\<close>.
\<close>

theorem C7_sentinel:
  "definedRun init_state evs \<Longrightarrow>
   (nonIdleSamplesRPM (steps init_state evs) = 0 \<longrightarrow>
      nonIdleMinRPM (steps init_state evs) = 0 \<and> nonIdleMaxRPM (steps init_state evs) = 0
      \<and> (\<exists>w s1. myLocationGenerationCallback (steps init_state evs) = Some (w, s1)
            \<and> engineRpmMin w = 0 \<and> engineRpmMax w = 0)
      \<and> (\<exists>e s1. engineLog x (steps init_state evs) = Some (e, s1)
            \<and> (\<forall>a1 a2 a3 lo m hi. LogEngineRPM a1 a2 a3 lo m hi \<in> set e \<longrightarrow> lo = 0 \<and> hi = 0)))
   \<and> (nonIdleSamplesSPEED (steps init_state evs) = 0 \<longrightarrow>
      nonIdleMinSPEED (steps init_state evs) = 0 \<and> nonIdleMaxSPEED (steps init_state evs) = 0
      \<and> (\<exists>w s1. myLocationGenerationCallback (steps init_state evs) = Some (w, s1)
            \<and> engineSpeedMin w = 0 \<and> engineSpeedMax w = 0)
      \<and> (\<exists>e s1. engineLog x (steps init_state evs) = Some (e, s1)
            \<and> (\<forall>a1 a2 a3 lo m hi. LogEngineSPEED a1 a2 a3 lo m hi \<in> set e \<longrightarrow> lo = 0 \<and> hi = 0)))"
proof -
  assume "definedRun init_state evs"
  from sentinel_steps [OF this sentinel_init]
  have r: "sentinelRPM (steps init_state evs)" and v: "sentinelSPEED (steps init_state evs)"
    by simp_all
  let ?s = "steps init_state evs"
  have a: "nonIdleSamplesRPM ?s = 0 \<longrightarrow>
      nonIdleMinRPM ?s = 0 \<and> nonIdleMaxRPM ?s = 0
      \<and> (\<exists>w s1. myLocationGenerationCallback ?s = Some (w, s1)
            \<and> engineRpmMin w = 0 \<and> engineRpmMax w = 0)
      \<and> (\<exists>e s1. engineLog x ?s = Some (e, s1)
            \<and> (\<forall>a1 a2 a3 lo m hi. LogEngineRPM a1 a2 a3 lo m hi \<in> set e \<longrightarrow> lo = 0 \<and> hi = 0))"
    using r by (simp add: sentinelRPM_def callback_eq engineLog_eq)
  have b: "nonIdleSamplesSPEED ?s = 0 \<longrightarrow>
      nonIdleMinSPEED ?s = 0 \<and> nonIdleMaxSPEED ?s = 0
      \<and> (\<exists>w s1. myLocationGenerationCallback ?s = Some (w, s1)
            \<and> engineSpeedMin w = 0 \<and> engineSpeedMax w = 0)
      \<and> (\<exists>e s1. engineLog x ?s = Some (e, s1)
            \<and> (\<forall>a1 a2 a3 lo m hi. LogEngineSPEED a1 a2 a3 lo m hi \<in> set e \<longrightarrow> lo = 0 \<and> hi = 0))"
    using v by (simp add: sentinelSPEED_def callback_eq engineLog_eq)
  from a b show ?thesis
    by (intro conjI)
qed

lemma exampleStream_reset:
  "steps init_state (exampleStream @ [ReadReset]) = init_state"
  by (simp add: exampleStream_def handleCan_rpmFrame recordRPM_def int_div_def Let_def
        init_state_def signed_divide_int_def word_sless_alt step_ReadReset resetStats_def
        del: step.simps(4))

lemma exampleStream_defined: "definedRun init_state (exampleStream @ [ReadReset])"
  by (intro definedRun_short) (simp_all add: init_state_def exampleStream_def)

text \<open>
  The witness of C7: after the five example periods the minimum is 1600; after the read
  and reset that follows, count, minimum and maximum are 0 again.
\<close>

theorem C7_sentinel_witness:
  "definedRun init_state (exampleStream @ [ReadReset])
   \<and> nonIdleMinRPM (steps init_state exampleStream) = 1600
   \<and> nonIdleSamplesRPM (steps init_state (exampleStream @ [ReadReset])) = 0
   \<and> nonIdleMinRPM (steps init_state (exampleStream @ [ReadReset])) = 0
   \<and> nonIdleMaxRPM (steps init_state (exampleStream @ [ReadReset])) = 0
   \<and> nonIdleSamplesSPEED (steps init_state (exampleStream @ [ReadReset])) = 0
   \<and> nonIdleMinSPEED (steps init_state (exampleStream @ [ReadReset])) = 0
   \<and> nonIdleMaxSPEED (steps init_state (exampleStream @ [ReadReset])) = 0"
proof -
  let ?s = "steps init_state (exampleStream @ [ReadReset])"
  have r: "nonIdleSamplesRPM ?s = 0" and v: "nonIdleSamplesSPEED ?s = 0"
    unfolding exampleStream_reset by (simp_all add: init_state_def)
  have m: "nonIdleMinRPM (steps init_state exampleStream) = 1600"
    by (simp add: exampleStream_run)
  note c = C7_sentinel [OF exampleStream_defined]
  from c [THEN conjunct1, rule_format, OF r] c [THEN conjunct2, rule_format, OF v]
    exampleStream_defined r v m
  show ?thesis
    by blast
qed

section \<open>The non-idle counter after \<open>2 ^ 32\<close> samples\<close>

lemma nonIdle_round:
  assumes "idleRPM s = 1600"
    and "nonIdleMinRPM s = 0 \<or> nonIdleMinRPM s = 2000"
    and "nonIdleMaxRPM s = 0 \<or> nonIdleMaxRPM s = 2000"
  shows "nonIdleSamplesRPM (recordRPM (handleCan (rpmFrame 0x1F 0x40) s)) = nonIdleSamplesRPM s + 1"
    and "nonIdleMinRPM (recordRPM (handleCan (rpmFrame 0x1F 0x40) s)) = 2000"
    and "nonIdleMaxRPM (recordRPM (handleCan (rpmFrame 0x1F 0x40) s)) = 2000"
    and "idleRPM (recordRPM (handleCan (rpmFrame 0x1F 0x40) s)) = 1600"
  using assms
  by (auto simp add: handleCan_rpmFrame recordRPM_def int_div_def signed_divide_int_def Let_def
        word_sless_alt)

lemma nonIdle_rounds:
  "idleRPM s = 1600 \<Longrightarrow> nonIdleMinRPM s = 2000 \<Longrightarrow> nonIdleMaxRPM s = 2000 \<Longrightarrow>
   nonIdleSamplesRPM (steps s (nonIdlePeriods n)) = nonIdleSamplesRPM s + of_nat n
   \<and> nonIdleMinRPM (steps s (nonIdlePeriods n)) = 2000
   \<and> nonIdleMaxRPM (steps s (nonIdlePeriods n)) = 2000"
proof (induction n arbitrary: s)
  case 0
  then show ?case by simp
next
  case (Suc n)
  let ?t = "recordRPM (handleCan (rpmFrame 0x1F 0x40) s)"
  have a: "nonIdleSamplesRPM ?t = nonIdleSamplesRPM s + 1" and b: "nonIdleMinRPM ?t = 2000"
    and c: "nonIdleMaxRPM ?t = 2000" and d: "idleRPM ?t = 1600"
    using nonIdle_round [of s] Suc.prems by simp_all
  from Suc.IH [OF d b c] show ?case
    by (simp add: a)
qed

lemma nonIdle_rounds_init:
  "nonIdleSamplesRPM (steps init_state (nonIdlePeriods (Suc n))) = of_nat (Suc n)
   \<and> nonIdleMinRPM (steps init_state (nonIdlePeriods (Suc n))) = 2000
   \<and> nonIdleMaxRPM (steps init_state (nonIdlePeriods (Suc n))) = 2000"
proof -
  let ?t = "recordRPM (handleCan (rpmFrame 0x1F 0x40) init_state)"
  have i: "idleRPM init_state = 1600" "nonIdleMinRPM init_state = 0 \<or> nonIdleMinRPM init_state = 2000"
    "nonIdleMaxRPM init_state = 0 \<or> nonIdleMaxRPM init_state = 2000"
    "nonIdleSamplesRPM init_state = 0"
    by (simp_all add: init_state_def)
  have a: "nonIdleSamplesRPM ?t = 1" and b: "nonIdleMinRPM ?t = 2000"
    and c: "nonIdleMaxRPM ?t = 2000" and d: "idleRPM ?t = 1600"
    using nonIdle_round [OF i(1,2,3)] i(4) by simp_all
  from nonIdle_rounds [OF d b c, of n] show ?thesis
    by (simp add: a)
qed

lemma wrap_count: "(2 :: nat) ^ 32 = Suc (2 ^ 32 - 1)" and wrap_word: "(of_nat (Suc (2 ^ 32 - 1)) :: cint) = 0"
proof -
  show s: "(2 :: nat) ^ 32 = Suc (2 ^ 32 - 1)"
    by simp
  have "(of_nat (2 ^ 32) :: cint) = 0"
    by simp
  then show "(of_nat (Suc (2 ^ 32 - 1)) :: cint) = 0"
    by (simp only: s [symmetric])
qed

text \<open>
  Claim C7 as stated, for any sequence of updates and resets, fails on the 32-bit
  counters: \<open>2 ^ 32\<close> RPM periods in a row with a reply of 2000 RPM and no reset in between
  make \<open>nonIdleSamplesRPM\<close> wrap around to 0 while minimum and maximum stay at 2000, and
  the telemetry callback then writes 2000 for both.
\<close>

theorem C7_overflow_counterexample:
  "nonIdleSamplesRPM (steps init_state (nonIdlePeriods (2 ^ 32))) = 0
   \<and> nonIdleMinRPM (steps init_state (nonIdlePeriods (2 ^ 32))) = 2000
   \<and> nonIdleMaxRPM (steps init_state (nonIdlePeriods (2 ^ 32))) = 2000
   \<and> map_option (engineRpmMin \<circ> fst)
        (myLocationGenerationCallback (steps init_state (nonIdlePeriods (2 ^ 32)))) = Some 2000
   \<and> map_option (engineRpmMax \<circ> fst)
        (myLocationGenerationCallback (steps init_state (nonIdlePeriods (2 ^ 32)))) = Some 2000"
proof -
  let ?s = "steps init_state (nonIdlePeriods (2 ^ 32))"
  have e: "?s = steps init_state (nonIdlePeriods (Suc (2 ^ 32 - 1)))"
    by (simp only: wrap_count [symmetric])
  have n: "nonIdleSamplesRPM ?s = 0" and lo: "nonIdleMinRPM ?s = 2000"
    and hi: "nonIdleMaxRPM ?s = 2000"
    unfolding e using nonIdle_rounds_init [of "2 ^ 32 - 1"] wrap_word by (simp_all only:)
  have w: "map_option (engineRpmMin \<circ> fst) (myLocationGenerationCallback ?s) = Some 2000"
    "map_option (engineRpmMax \<circ> fst) (myLocationGenerationCallback ?s) = Some 2000"
    by (simp_all only: callback_eq option.map_sel option.simps comp_apply fst_conv
          snapshot.simps lo hi)
  from n lo hi w show ?thesis
    by (intro conjI)
qed

section \<open>The counters over passes of \<open>loop()\<close>\<close>

text \<open>The counters add up over passes of \<open>loop()\<close> as well.\<close>

lemma counts_syncSettings:
  "countsRPM (syncSettings x s) = countsRPM s" "countsSPEED (syncSettings x s) = countsSPEED s"
  by (simp_all add: syncSettings_def countsRPM_def countsSPEED_def split: option.splits)

lemma counts_requestRpm:
  assumes "requestRpm x s = (e, s1)" and "countsRPM s \<and> countsSPEED s"
  shows "countsRPM s1 \<and> countsSPEED s1"
proof -
  let ?t = "s\<lparr>requestRpmLastMillis := millis (tRpmSet x)\<rparr>"
  have t: "countsRPM ?t \<and> countsSPEED ?t"
    using assms(2) by (simp add: countsRPM_def countsSPEED_def)
  then have r: "countsRPM (recordRPM ?t) \<and> countsSPEED (recordRPM ?t)"
    by (simp add: countsRPM_recordRPM countsSPEED_recordRPM)
  have "s1 = s \<or> s1 = recordRPM ?t \<or> s1 = (recordRPM ?t)\<lparr>errorFlagRpm := False\<rparr>
      \<or> s1 = (recordRPM ?t)\<lparr>errorFlagRpm := True\<rparr>"
    using assms(1) by (auto simp add: requestRpm_def Let_def split: if_splits)
  with r assms(2) show ?thesis
    by (auto simp add: countsRPM_def countsSPEED_def)
qed

lemma counts_requestSpeed:
  assumes "requestSpeed x s = (e, s1)" and "countsRPM s \<and> countsSPEED s"
  shows "countsRPM s1 \<and> countsSPEED s1"
proof -
  let ?t = "s\<lparr>requestSpeedLastMillis := millis (tSpeedSet x)\<rparr>"
  have t: "countsRPM ?t \<and> countsSPEED ?t"
    using assms(2) by (simp add: countsRPM_def countsSPEED_def)
  then have r: "countsRPM (recordSPEED ?t) \<and> countsSPEED (recordSPEED ?t)"
    by (simp add: countsRPM_recordSPEED countsSPEED_recordSPEED)
  have "s1 = s \<or> s1 = recordSPEED ?t \<or> s1 = (recordSPEED ?t)\<lparr>errorFlagSpeed := False\<rparr>
      \<or> s1 = (recordSPEED ?t)\<lparr>errorFlagSpeed := True\<rparr>"
    using assms(1) by (auto simp add: requestSpeed_def Let_def split: if_splits)
  with r assms(2) show ?thesis
    by (auto simp add: countsRPM_def countsSPEED_def)
qed

lemma counts_loop:
  assumes "loop x s = Some (e, s')" and "countsRPM s \<and> countsSPEED s"
  shows "countsRPM s' \<and> countsSPEED s'"
proof -
  from assms(1) obtain e0 s0 e2 s2 e3 s3 e4 s4 e5 where
    a: "trackerLoop x s = Some (e0, s0)" and
    b: "requestRpm x (receiveCan x s0) = (e2, s2)" and
    c: "requestSpeed x s2 = (e3, s3)" and
    d: "engineLog x s3 = Some (e4, s4)" and
    f: "fastPublish x s4 = (e5, s')"
    by (rule loopE)
  have c0: "countsRPM s0 \<and> countsSPEED s0"
    using trackerLoop_eq [OF a] assms(2)
    by (simp add: counts_syncSettings countsRPM_resetStats countsSPEED_resetStats split: if_splits)
  have "countsRPM (receiveCan x s0) \<and> countsSPEED (receiveCan x s0)"
    using c0 by (simp add: receiveCan_def countsRPM_handleCan countsSPEED_handleCan
        split: option.splits)
  from counts_requestRpm [OF b this] have "countsRPM s2 \<and> countsSPEED s2" .
  from counts_requestSpeed [OF c this] have c3: "countsRPM s3 \<and> countsSPEED s3" .
  have "s4 = s3 \<or> s4 = s3\<lparr>lastEngineLog := millis (tLogSet x)\<rparr>"
    using d by (auto simp add: engineLog_eq split: if_splits)
  with c3 have c4: "countsRPM s4 \<and> countsSPEED s4"
    by (auto simp add: countsRPM_def countsSPEED_def)
  have "s' = s4 \<or> s' = s4\<lparr>lastFastPublish := millis (tPubSet x)\<rparr>"
    using fastPublish_eq [OF f] by (simp split: if_splits)
  with c4 show ?thesis
    by (auto simp add: countsRPM_def countsSPEED_def)
qed

lemma counts_run:
  "run s xs = Some s' \<Longrightarrow> countsRPM s \<and> countsSPEED s \<Longrightarrow> countsRPM s' \<and> countsSPEED s'"
proof (induction xs arbitrary: s)
  case Nil
  then show ?case by simp
next
  case (Cons x xs)
  from Cons.prems(1) obtain e s1 where l: "loop x s = Some (e, s1)" and r: "run s1 xs = Some s'"
    by (auto split: option.splits)
  from Cons.IH [OF r counts_loop [OF l Cons.prems(2)]] show ?case .
qed

lemma run_total: "\<exists>s'. run s xs = Some s'"
proof (induction xs arbitrary: s)
  case Nil
  then show ?case by simp
next
  case (Cons x xs)
  obtain e s1 where "loop x s = Some (e, s1)"
    using loop_total by blast
  with Cons.IH [of s1] show ?case
    by simp
qed

end
